theory Spec2Isabelle
  imports Complex_Main "HOL-Library.Log_Nat"
begin

section \<open>JavaScript values and the host\<close>

text \<open>
  The tracker is one React component (\<^verbatim>\<open>src/app/page.tsx\<close>; the second source file
  carries the same core with a notification layer around it).  Its core reads the clock,
  the browser's \<^verbatim>\<open>Date\<close> built-ins and \<^verbatim>\<open>localStorage\<close>.  The built-ins are modelled after
  ECMA-262; what ECMA-262 leaves to the implementation is a field of the record \<open>host\<close>.

  A JavaScript number is modelled by a rational: the core only compares numbers and tests
  them for equality (exact on doubles), except for the completion percentage, whose
  binary64 arithmetic is written out in its own section.  \<open>NaN\<close> is \<open>None\<close> of an option type
  where the code can meet it (\<^verbatim>\<open>parseInt\<close>, time values).
\<close>

type_synonym number = rat

datatype jsval =
    JUndefined
  | JNull
  | JBool bool
  | JNum number
  | JStr string
  | JArr "jsval list"
  | JObj "(string \<times> jsval) list"

datatype js_error = TypeError | RangeError | SyntaxError

text \<open>\<^verbatim>\<open>typeof v\<close>.\<close>

fun typeof :: "jsval \<Rightarrow> string" where
  "typeof JUndefined = ''undefined''"
| "typeof JNull = ''object''"
| "typeof (JBool b) = ''boolean''"
| "typeof (JNum x) = ''number''"
| "typeof (JStr s) = ''string''"
| "typeof (JArr xs) = ''object''"
| "typeof (JObj ps) = ''object''"

text \<open>
  \<^verbatim>\<open>v.k\<close> for the property names the core reads (\<^verbatim>\<open>totalDays\<close>, \<^verbatim>\<open>completedDays\<close>,
  \<^verbatim>\<open>sankalpDays\<close>, \<^verbatim>\<open>startDate\<close>, \<^verbatim>\<open>sankalpStarted\<close>, \<^verbatim>\<open>version\<close>, \<^verbatim>\<open>date\<close>, \<^verbatim>\<open>day\<close>,
  \<^verbatim>\<open>dateString\<close>, \<^verbatim>\<open>dayName\<close>): none of them is a property of a prototype, so they are
  own properties of an object or absent.  Reading a property of \<^verbatim>\<open>null\<close> or \<^verbatim>\<open>undefined\<close>
  throws.
\<close>

fun Get :: "jsval \<Rightarrow> string \<Rightarrow> js_error + jsval" where
  "Get JUndefined k = Inl TypeError"
| "Get JNull k = Inl TypeError"
| "Get (JObj ps) k = Inr (case map_of ps k of None \<Rightarrow> JUndefined | Some v \<Rightarrow> v)"
| "Get v k = Inr JUndefined"

text \<open>Truthiness, for \<^verbatim>\<open>!data\<close>.\<close>

fun ToBoolean :: "jsval \<Rightarrow> bool" where
  "ToBoolean JUndefined = False"
| "ToBoolean JNull = False"
| "ToBoolean (JBool b) = b"
| "ToBoolean (JNum x) = (x \<noteq> 0)"
| "ToBoolean (JStr s) = (s \<noteq> [])"
| "ToBoolean (JArr xs) = True"
| "ToBoolean (JObj ps) = True"

text \<open>
  The host: the local time zone adjustment \<open>LocalTZA(t, isUTC)\<close> of ECMA-262 in milliseconds,
  \<^verbatim>\<open>Date.parse\<close> (\<open>None\<close> is \<open>NaN\<close>), \<^verbatim>\<open>Date.prototype.toISOString\<close> on a valid time value,
  the two \<^verbatim>\<open>hi-IN\<close> renderings of \<^verbatim>\<open>toLocaleDateString\<close>, and the conversion of an array or
  object to a primitive string (\<open>None\<close> when it throws).

  The adjustment depends on the time: with \<open>isUTC\<close> true, \<open>t\<close> is a time value and the result
  is the offset of local time in effect at that moment; with \<open>isUTC\<close> false, \<open>t\<close> is a local
  time and the result is the offset the zone's rules give to that reading of the local
  clock (a reading that a change of offset skips or repeats takes the offset from before
  the change).
\<close>

record host =
  LocalTZA :: "int \<Rightarrow> bool \<Rightarrow> int"
  Date_parse :: "string \<Rightarrow> int option"
  toISOString :: "int \<Rightarrow> string"
  toLocaleDateString_hiIN :: "int \<Rightarrow> string"
  toLocaleDateString_hiIN_weekday :: "int \<Rightarrow> string"
  ToPrimitive_string :: "jsval \<Rightarrow> string option"

section \<open>Time values and the calendar (ECMA-262, Date objects)\<close>

text \<open>A \<^verbatim>\<open>Date\<close> holds a time value: milliseconds since the epoch, or \<open>NaN\<close>.\<close>

type_synonym Date = "int option"

definition msPerDay :: int where
  "msPerDay = 86400000"

definition maxTime :: int where
  "maxTime = 8640000000000000"

definition TimeClip :: "int \<Rightarrow> Date" where
  "TimeClip t = (if \<bar>t\<bar> > maxTime then None else Some t)"

definition TimeClip_number :: "number \<Rightarrow> Date" where
  "TimeClip_number x =
     (if \<bar>x\<bar> > of_int maxTime then None
      else Some (if x \<ge> 0 then \<lfloor>x\<rfloor> else \<lceil>x\<rceil>))"

definition Day :: "int \<Rightarrow> int" where
  "Day t = t div msPerDay"

definition TimeWithinDay :: "int \<Rightarrow> int" where
  "TimeWithinDay t = t mod msPerDay"

definition DayFromYear :: "int \<Rightarrow> int" where
  "DayFromYear y =
     365 * (y - 1970) + (y - 1969) div 4 - (y - 1901) div 100 + (y - 1601) div 400"

definition DaysInYear :: "int \<Rightarrow> int" where
  "DaysInYear y =
     (if y mod 4 \<noteq> 0 then 365
      else if y mod 100 \<noteq> 0 then 366
      else if y mod 400 \<noteq> 0 then 365
      else 366)"

text \<open>
  \<open>YearFromTime t\<close> is the largest year that starts at or before \<open>t\<close>.  The search starts
  from an estimate inside the 400-year cycle of 146097 days that is never too late and at
  most two years too early.
\<close>

definition YearFromDay :: "int \<Rightarrow> int" where
  "YearFromDay d =
     (let y0 = 1970 + 400 * (d div 146097) + (d mod 146097) div 366
      in if DayFromYear (y0 + 2) \<le> d then y0 + 2
         else if DayFromYear (y0 + 1) \<le> d then y0 + 1
         else y0)"

definition YearFromTime :: "int \<Rightarrow> int" where
  "YearFromTime t = YearFromDay (Day t)"

definition InLeapYear :: "int \<Rightarrow> int" where
  "InLeapYear t = (if DaysInYear (YearFromTime t) = 366 then 1 else 0)"

definition DayWithinYear :: "int \<Rightarrow> int" where
  "DayWithinYear t = Day t - DayFromYear (YearFromTime t)"

definition MonthFromTime :: "int \<Rightarrow> int" where
  "MonthFromTime t =
     (let d = DayWithinYear t; l = InLeapYear t
      in if d < 31 then 0
         else if d < 59 + l then 1
         else if d < 90 + l then 2
         else if d < 120 + l then 3
         else if d < 151 + l then 4
         else if d < 181 + l then 5
         else if d < 212 + l then 6
         else if d < 243 + l then 7
         else if d < 273 + l then 8
         else if d < 304 + l then 9
         else if d < 334 + l then 10
         else 11)"

definition DateFromTime :: "int \<Rightarrow> int" where
  "DateFromTime t =
     (let d = DayWithinYear t; l = InLeapYear t; m = MonthFromTime t
      in if m = 0 then d + 1
         else if m = 1 then d - 30
         else if m = 2 then d - 58 - l
         else if m = 3 then d - 89 - l
         else if m = 4 then d - 119 - l
         else if m = 5 then d - 150 - l
         else if m = 6 then d - 180 - l
         else if m = 7 then d - 211 - l
         else if m = 8 then d - 242 - l
         else if m = 9 then d - 272 - l
         else if m = 10 then d - 303 - l
         else d - 333 - l)"

definition WeekDay :: "int \<Rightarrow> int" where
  "WeekDay t = (Day t + 4) mod 7"

text \<open>The day number of the first day of month \<open>m\<close> (0 to 11) within its year.\<close>

definition DaysBeforeMonth :: "int \<Rightarrow> int \<Rightarrow> int" where
  "DaysBeforeMonth l m =
     (if m = 0 then 0
      else if m = 1 then 31
      else if m = 2 then 59 + l
      else if m = 3 then 90 + l
      else if m = 4 then 120 + l
      else if m = 5 then 151 + l
      else if m = 6 then 181 + l
      else if m = 7 then 212 + l
      else if m = 8 then 243 + l
      else if m = 9 then 273 + l
      else if m = 10 then 304 + l
      else 334 + l)"

definition MakeDay :: "int \<Rightarrow> int \<Rightarrow> int \<Rightarrow> int" where
  "MakeDay year month dt =
     (let ym = year + month div 12;
          mn = month mod 12;
          l = (if DaysInYear ym = 366 then 1 else 0)
      in DayFromYear ym + DaysBeforeMonth l mn + dt - 1)"

definition MakeTime :: "int \<Rightarrow> int \<Rightarrow> int \<Rightarrow> int \<Rightarrow> int" where
  "MakeTime hour mn sec ms = hour * 3600000 + mn * 60000 + sec * 1000 + ms"

definition MakeDate :: "int \<Rightarrow> int \<Rightarrow> int" where
  "MakeDate dy tm = dy * msPerDay + tm"

definition LocalTime :: "host \<Rightarrow> int \<Rightarrow> int" where
  "LocalTime h t = t + LocalTZA h t True"

definition UTC :: "host \<Rightarrow> int \<Rightarrow> int" where
  "UTC h t = t - LocalTZA h t False"

text \<open>\<^verbatim>\<open>new Date(value)\<close> for a value that is not itself a \<^verbatim>\<open>Date\<close>.\<close>

fun new_Date :: "host \<Rightarrow> jsval \<Rightarrow> js_error + Date" where
  "new_Date h JUndefined = Inr None"
| "new_Date h JNull = Inr (Some 0)"
| "new_Date h (JBool b) = Inr (Some (if b then 1 else 0))"
| "new_Date h (JNum x) = Inr (TimeClip_number x)"
| "new_Date h (JStr s) = Inr (Option.bind (Date_parse h s) TimeClip)"
| "new_Date h v =
     (case ToPrimitive_string h v of
        None \<Rightarrow> Inl TypeError
      | Some s \<Rightarrow> Inr (Option.bind (Date_parse h s) TimeClip))"

text \<open>\<^verbatim>\<open>date.getDate()\<close>, \<^verbatim>\<open>date.setDate(dt)\<close>, \<^verbatim>\<open>date.setHours(hour, min, sec, ms)\<close>.\<close>

definition getDate :: "host \<Rightarrow> Date \<Rightarrow> int option" where
  "getDate h d = map_option (\<lambda>t. DateFromTime (LocalTime h t)) d"

definition setDate :: "host \<Rightarrow> Date \<Rightarrow> int option \<Rightarrow> Date" where
  "setDate h d dt =
     (case d of
        None \<Rightarrow> None
      | Some t0 \<Rightarrow>
          (case dt of
             None \<Rightarrow> None
           | Some n \<Rightarrow>
               (let t = LocalTime h t0;
                    newDate = MakeDate (MakeDay (YearFromTime t) (MonthFromTime t) n)
                                       (TimeWithinDay t)
                in TimeClip (UTC h newDate))))"

definition setHours :: "host \<Rightarrow> Date \<Rightarrow> int \<Rightarrow> int \<Rightarrow> int \<Rightarrow> int \<Rightarrow> Date" where
  "setHours h d hour mn sec ms =
     (case d of
        None \<Rightarrow> None
      | Some t0 \<Rightarrow>
          (let t = LocalTime h t0;
               date = MakeDate (Day t) (MakeTime hour mn sec ms)
           in TimeClip (UTC h date)))"

text \<open>
  \<^verbatim>\<open>date.toDateString()\<close> prints the weekday, the month, the day of the month and the year
  of the local time, or \<^verbatim>\<open>Invalid Date\<close>.  The four numbers stand for the text: two
  renderings are equal exactly when the numbers are.
\<close>

datatype date_text = Invalid_Date | Date_text int int int int

definition toDateString :: "host \<Rightarrow> Date \<Rightarrow> date_text" where
  "toDateString h d =
     (case d of
        None \<Rightarrow> Invalid_Date
      | Some t0 \<Rightarrow>
          (let t = LocalTime h t0
           in Date_text (WeekDay t) (MonthFromTime t) (DateFromTime t) (YearFromTime t)))"

text \<open>\<^verbatim>\<open>a < b\<close> and \<^verbatim>\<open>a > b\<close> on two \<^verbatim>\<open>Date\<close>s compare the time values; \<open>NaN\<close> compares false.\<close>

definition Date_less :: "Date \<Rightarrow> Date \<Rightarrow> bool" where
  "Date_less a b = (case a of None \<Rightarrow> False | Some x \<Rightarrow> (case b of None \<Rightarrow> False | Some y \<Rightarrow> x < y))"

text \<open>
  Two time values that the statements about local days refer to.  \<open>local_midnight h t\<close> is
  the time value the host gives to the midnight that begins the local day of \<open>t\<close>: what
  \<^verbatim>\<open>setHours(0, 0, 0, 0)\<close> computes before it clips.  \<open>days_later h t i\<close> is the time value the
  host gives to the local day \<open>i\<close> days after the local day of \<open>t\<close>, at the local time of day
  of \<open>t\<close>.
\<close>

definition local_midnight :: "host \<Rightarrow> int \<Rightarrow> int" where
  "local_midnight h t = UTC h (MakeDate (Day (LocalTime h t)) 0)"

definition days_later :: "host \<Rightarrow> int \<Rightarrow> nat \<Rightarrow> int" where
  "days_later h t i =
     UTC h (MakeDate (Day (LocalTime h t) + int i) (TimeWithinDay (LocalTime h t)))"

section \<open>Date classifier\<close>

text \<open>
  Every call of \<^verbatim>\<open>new Date()\<close> reads the clock.  Each classifier makes one such call and
  takes its reading as the argument \<open>now\<close>.  An operation of the component that makes
  several calls takes a \<open>clock\<close>: the sequence of the readings of its calls, \<open>clk 0\<close> being
  the first.
\<close>

type_synonym clock = "nat \<Rightarrow> int"

definition isValidDate :: "Date \<Rightarrow> bool" where
  "isValidDate date = (date \<noteq> None)"

definition isToday :: "host \<Rightarrow> int \<Rightarrow> Date \<Rightarrow> bool" where
  "isToday h now date =
     (let today = Some now
      in toDateString h date = toDateString h today)"

definition isPast :: "host \<Rightarrow> int \<Rightarrow> Date \<Rightarrow> bool" where
  "isPast h now date =
     (let today = setHours h (Some now) 0 0 0 0;
          compareDate = setHours h date 0 0 0 0
      in Date_less compareDate today)"

definition isFuture :: "host \<Rightarrow> int \<Rightarrow> Date \<Rightarrow> bool" where
  "isFuture h now date =
     (let today = setHours h (Some now) 0 0 0 0;
          compareDate = setHours h date 0 0 0 0
      in Date_less today compareDate)"

section \<open>Strings: \<^verbatim>\<open>trim\<close> and \<^verbatim>\<open>parseInt\<close>\<close>

text \<open>A string is a list of code units below 256 (the input field holds ASCII).\<close>

definition isWhiteSpace :: "char \<Rightarrow> bool" where
  "isWhiteSpace c = (of_char c \<in> set [9, 10, 11, 12, 13, 32, 160 :: nat])"

definition trim :: "string \<Rightarrow> string" where
  "trim s = rev (dropWhile isWhiteSpace (rev (dropWhile isWhiteSpace s)))"

text \<open>The value of a digit or letter as a digit, 36 for any other character.\<close>

definition digitValue :: "char \<Rightarrow> nat" where
  "digitValue c =
     (let n = of_char c :: nat
      in if 48 \<le> n \<and> n \<le> 57 then n - 48
         else if 97 \<le> n \<and> n \<le> 122 then n - 87
         else if 65 \<le> n \<and> n \<le> 90 then n - 55
         else 36)"

text \<open>
  \<^verbatim>\<open>parseInt(string)\<close> with no radix: leading white space is skipped, a sign is read, the
  prefix \<^verbatim>\<open>0x\<close> selects radix 16, and the longest run of digits is the number; no digit
  gives \<open>NaN\<close>.  The integer is kept exact (a double rounds it above \<open>2^53\<close>, which no
  comparison with 1 or 365 can see).
\<close>

definition parseInt :: "string \<Rightarrow> number option" where
  "parseInt string =
     (let S = dropWhile isWhiteSpace string;
          sign = (if take 1 S = ''-'' then - 1 else 1 :: int);
          S1 = (if take 1 S = ''+'' \<or> take 1 S = ''-'' then drop 1 S else S);
          stripPrefix = (take 2 S1 = ''0x'' \<or> take 2 S1 = ''0X'');
          R = (if stripPrefix then 16 else 10 :: nat);
          S2 = (if stripPrefix then drop 2 S1 else S1);
          Z = takeWhile (\<lambda>c. digitValue c < R) S2
      in if Z = [] then None
         else Some (of_int (sign * int (foldl (\<lambda>a c. a * R + digitValue c) 0 Z))))"

section \<open>The component's state\<close>

text \<open>
  A \<^verbatim>\<open>SankalpDay\<close>.  The three flags are named \<open>isToday_flag\<close>, \<open>isPast_flag\<close> and
  \<open>isFuture_flag\<close>, the classifier functions keeping the source's names.  \<^verbatim>\<open>day\<close>,
  \<^verbatim>\<open>dateString\<close> and \<^verbatim>\<open>dayName\<close> hold a JavaScript value: a restored record carries
  whatever the stored entry held there.
\<close>

record SankalpDay =
  date :: Date
  day :: jsval
  isToday_flag :: bool
  isPast_flag :: bool
  isFuture_flag :: bool
  dateString :: jsval
  dayName :: jsval

text \<open>
  The messages are Hindi text in the source; one constructor stands for each
  (enter the number of days; enter a valid number; at least \<open>n\<close> days; at most \<open>n\<close> days;
  error in counting the days; error in starting the sankalp).
\<close>

datatype message =
    EnterDayCount
  | EnterValidNumber
  | MinimumDays number
  | MaximumDays number
  | CalculationError
  | StartError

record ValidationError =
  field :: string
  message :: message

text \<open>
  A \<^verbatim>\<open>Set<number>\<close> keeps its members in insertion order without duplicates: a list.
\<close>

definition Set_has :: "number list \<Rightarrow> number \<Rightarrow> bool" where
  "Set_has S x = (x \<in> set S)"

definition Set_add :: "number list \<Rightarrow> number \<Rightarrow> number list" where
  "Set_add S x = (if x \<in> set S then S else S @ [x])"

definition Set_delete :: "number list \<Rightarrow> number \<Rightarrow> number list" where
  "Set_delete S x = removeAll x S"

definition new_Set :: "number list \<Rightarrow> number list" where
  "new_Set xs = foldl Set_add [] xs"

record state =
  days :: string
  sankalpStarted :: bool
  completedDays :: "number list"
  sankalpDays :: "SankalpDay list"
  totalDays :: number
  validationErrors :: "ValidationError list"
  isLoading :: bool

definition initial_state :: state where
  "initial_state =
     \<lparr>days = [], sankalpStarted = False, completedDays = [], sankalpDays = [],
      totalDays = 0, validationErrors = [], isLoading = True\<rparr>"

definition STORAGE_VERSION :: number where
  "STORAGE_VERSION = 1"

definition MAX_SANKALP_DAYS :: number where
  "MAX_SANKALP_DAYS = 365"

definition MIN_SANKALP_DAYS :: number where
  "MIN_SANKALP_DAYS = 1"

section \<open>Validation\<close>

definition validateDaysInput :: "string \<Rightarrow> ValidationError list" where
  "validateDaysInput input =
     (if input = [] \<or> trim input = [] then [\<lparr>field = ''days'', message = EnterDayCount\<rparr>]
      else
        (case parseInt input of
           None \<Rightarrow> [\<lparr>field = ''days'', message = EnterValidNumber\<rparr>]
         | Some numDays \<Rightarrow>
             (if numDays < MIN_SANKALP_DAYS
              then [\<lparr>field = ''days'', message = MinimumDays MIN_SANKALP_DAYS\<rparr>] else [])
             @ (if numDays > MAX_SANKALP_DAYS
                then [\<lparr>field = ''days'', message = MaximumDays MAX_SANKALP_DAYS\<rparr>] else [])))"

text \<open>\<open>field_of v k\<close> is \<^verbatim>\<open>v.k\<close> where \<open>v\<close> is known not to be \<^verbatim>\<open>null\<close> or \<^verbatim>\<open>undefined\<close>.\<close>

definition field_of :: "jsval \<Rightarrow> string \<Rightarrow> jsval" where
  "field_of v k = (case Get v k of Inl e \<Rightarrow> JUndefined | Inr x \<Rightarrow> x)"

fun Array_isArray :: "jsval \<Rightarrow> bool" where
  "Array_isArray (JArr xs) = True"
| "Array_isArray v = False"

definition validateSankalpData :: "jsval \<Rightarrow> bool" where
  "validateSankalpData data =
     (if \<not> ToBoolean data \<or> typeof data \<noteq> ''object'' \<or> data = JNull then False
      else
        (let obj = data
         in typeof (field_of obj ''totalDays'') = ''number'' \<and>
            Array_isArray (field_of obj ''completedDays'') \<and>
            Array_isArray (field_of obj ''sankalpDays'') \<and>
            typeof (field_of obj ''startDate'') = ''string'' \<and>
            typeof (field_of obj ''sankalpStarted'') = ''boolean'' \<and>
            field_of obj ''version'' = JNum STORAGE_VERSION))"

section \<open>Day generator\<close>

text \<open>
  The record pushed for the counter \<open>i\<close>.  The three classifiers are called one after the
  other and each reads the clock: they take the readings \<open>k\<close>, \<open>k + 1\<close> and \<open>k + 2\<close>.
\<close>

definition new_day :: "host \<Rightarrow> clock \<Rightarrow> nat \<Rightarrow> Date \<Rightarrow> nat \<Rightarrow> SankalpDay" where
  "new_day h clk k d i =
     \<lparr>date = d,
      day = JNum (of_nat i + 1),
      isToday_flag = isToday h (clk k) d,
      isPast_flag = isPast h (clk (k + 1)) d,
      isFuture_flag = isFuture h (clk (k + 2)) d,
      dateString = JStr (case d of None \<Rightarrow> ''Invalid Date''
                         | Some t \<Rightarrow> toLocaleDateString_hiIN h t),
      dayName = JStr (case d of None \<Rightarrow> ''Invalid Date''
                      | Some t \<Rightarrow> toLocaleDateString_hiIN_weekday h t)\<rparr>"

text \<open>
  The loop of \<^verbatim>\<open>generateSankalpDays\<close>, from counter \<open>i\<close> with the records pushed so far.
  \<^verbatim>\<open>today\<close> is the first reading of the clock, made before the loop; \<open>k\<close> counts the readings
  made so far.
\<close>

function generate_loop ::
  "host \<Rightarrow> clock \<Rightarrow> number \<Rightarrow> nat \<Rightarrow> nat \<Rightarrow> SankalpDay list \<Rightarrow> SankalpDay list" where
  "generate_loop h clk numDays i k acc =
     (if of_nat i < numDays then
        (let today = Some (clk 0);
             date = setDate h today (map_option (\<lambda>d. d + int i) (getDate h today))
         in if \<not> isValidDate date then generate_loop h clk numDays (Suc i) k acc
            else generate_loop h clk numDays (Suc i) (k + 3) (acc @ [new_day h clk k date i]))
      else acc)"
  by pat_completeness auto
termination
proof (relation "measure (\<lambda>(h, clk, numDays, i, k, acc). nat \<lceil>numDays\<rceil> - i)")
  show "wf (measure (\<lambda>(h, clk, numDays, i, k, acc). nat \<lceil>numDays :: rat\<rceil> - i))"
    by simp
next
  fix h :: host and clk :: clock and numDays :: rat and i :: nat and k :: nat
    and acc :: "SankalpDay list"
  assume lt: "of_nat i < numDays"
  have "rat_of_nat i < of_int \<lceil>numDays\<rceil>"
    using lt le_of_int_ceiling [of numDays] by linarith
  then have "int i < \<lceil>numDays\<rceil>"
    by (metis of_int_less_iff of_int_of_nat_eq)
  then have less: "nat \<lceil>numDays\<rceil> - Suc i < nat \<lceil>numDays\<rceil> - i"
    by linarith
  show "((h, clk, numDays, Suc i, k, acc), h, clk, numDays, i, k, acc)
      \<in> measure (\<lambda>(h, clk, numDays, i, k, acc). nat \<lceil>numDays\<rceil> - i)"
    using less by simp
  fix xa :: Date
  show "((h, clk, numDays, Suc i, k + 3, acc @ [new_day h clk k xa i]), h, clk, numDays, i, k, acc)
      \<in> measure (\<lambda>(h, clk, numDays, i, k, acc). nat \<lceil>numDays\<rceil> - i)"
    using less by simp
qed

definition generateSankalpDays :: "host \<Rightarrow> clock \<Rightarrow> number \<Rightarrow> SankalpDay list" where
  "generateSankalpDays h clk numDays = generate_loop h clk numDays 0 1 []"

section \<open>Ledger operations\<close>

text \<open>
  \<^verbatim>\<open>startSankalp\<close>.  Nothing in \<^verbatim>\<open>generateSankalpDays\<close> throws, so the \<^verbatim>\<open>catch\<close> branch with
  its own message is never taken.  \<^verbatim>\<open>parseInt\<close> is applied to the validated input a second
  time, as in the source.
\<close>

definition startSankalp :: "host \<Rightarrow> clock \<Rightarrow> state \<Rightarrow> state" where
  "startSankalp h clk s =
     (let errors = validateDaysInput (days s);
          s1 = s\<lparr>validationErrors := errors\<rparr>
      in if length errors > 0 then s1
         else
           (case parseInt (days s) of
              None \<Rightarrow> s1\<lparr>validationErrors := [\<lparr>field = ''days'', message = CalculationError\<rparr>]\<rparr>
            | Some numDays \<Rightarrow>
                (let generatedDays = generateSankalpDays h clk numDays
                 in if of_nat (length generatedDays) \<noteq> numDays
                    then s1\<lparr>validationErrors := [\<lparr>field = ''days'', message = CalculationError\<rparr>]\<rparr>
                    else s1\<lparr>totalDays := numDays,
                            sankalpDays := generatedDays,
                            sankalpStarted := True,
                            validationErrors := []\<rparr>)))"

text \<open>
  In \<^verbatim>\<open>toggleDay\<close>, \<^verbatim>\<open>day.day === dayNumber\<close> holds when the record's \<^verbatim>\<open>day\<close> is that number.
\<close>

definition toggleDay :: "state \<Rightarrow> number \<Rightarrow> state" where
  "toggleDay s dayNumber =
     (if dayNumber < 1 \<or> dayNumber > totalDays s then s
      else
        (case find (\<lambda>d. day d = JNum dayNumber) (sankalpDays s) of
           None \<Rightarrow> s
         | Some dayToToggle \<Rightarrow>
             if isFuture_flag dayToToggle \<and> \<not> Set_has (completedDays s) dayNumber then s
             else
               (let newCompleted = completedDays s
                in s\<lparr>completedDays :=
                       (if Set_has newCompleted dayNumber
                        then Set_delete newCompleted dayNumber
                        else Set_add newCompleted dayNumber)\<rparr>)))"

section \<open>Persistence\<close>

text \<open>
  The slot of \<^verbatim>\<open>localStorage\<close> under the component's key is empty, or holds a text that
  \<^verbatim>\<open>JSON.parse\<close> rejects, or holds a JSON text, given by the value it parses to: what
  \<^verbatim>\<open>JSON.stringify\<close> writes for a value of numbers, strings, booleans, arrays and objects
  parses back to that value.
\<close>

datatype saved = NotJSON string | JSON jsval

type_synonym localStorage = "saved option"

definition resetSankalp :: "state \<Rightarrow> localStorage \<Rightarrow> state \<times> localStorage" where
  "resetSankalp s store =
     (s\<lparr>sankalpStarted := False,
        completedDays := [],
        sankalpDays := [],
        days := [],
        totalDays := 0,
        validationErrors := []\<rparr>,
      None)"

text \<open>
  One entry of the stored \<^verbatim>\<open>sankalpDays\<close>: \<open>Inl\<close> when reading it throws, \<open>Inr None\<close> when
  its date is invalid (the entry is filtered out, and the clock is not read), else the
  record with fresh flags, the three classifiers taking the readings \<open>k\<close>, \<open>k + 1\<close> and
  \<open>k + 2\<close> of the clock.
\<close>

definition reconstructDay :: "host \<Rightarrow> clock \<Rightarrow> nat \<Rightarrow> jsval \<Rightarrow> js_error + SankalpDay option" where
  "reconstructDay h clk k stored =
     (case Get stored ''date'' of
        Inl e \<Rightarrow> Inl e
      | Inr v \<Rightarrow>
          (case new_Date h v of
             Inl e \<Rightarrow> Inl e
           | Inr d \<Rightarrow>
               if \<not> isValidDate d then Inr None
               else Inr (Some \<lparr>date = d,
                               day = field_of stored ''day'',
                               isToday_flag = isToday h (clk k) d,
                               isPast_flag = isPast h (clk (k + 1)) d,
                               isFuture_flag = isFuture h (clk (k + 2)) d,
                               dateString = field_of stored ''dateString'',
                               dayName = field_of stored ''dayName''\<rparr>)))"

text \<open>The entries are mapped in order, from the reading \<open>k\<close> of the clock on.\<close>

fun reconstructDays ::
  "host \<Rightarrow> clock \<Rightarrow> nat \<Rightarrow> jsval list \<Rightarrow> js_error + SankalpDay list" where
  "reconstructDays h clk k [] = Inr []"
| "reconstructDays h clk k (x # xs) =
     (case reconstructDay h clk k x of
        Inl e \<Rightarrow> Inl e
      | Inr r \<Rightarrow>
          (case reconstructDays h clk (case r of None \<Rightarrow> k | Some d \<Rightarrow> k + 3) xs of
             Inl e \<Rightarrow> Inl e
           | Inr rs \<Rightarrow> Inr (case r of None \<Rightarrow> rs | Some d \<Rightarrow> d # rs)))"

text \<open>
  The filter on the stored \<^verbatim>\<open>completedDays\<close>:
  \<^verbatim>\<open>typeof day === 'number' && day >= 1 && day <= data.totalDays\<close>.
\<close>

fun completed_ok :: "jsval \<Rightarrow> jsval \<Rightarrow> bool" where
  "completed_ok (JNum td) (JNum x) = (x \<ge> 1 \<and> x \<le> td)"
| "completed_ok td v = False"

fun elements :: "jsval \<Rightarrow> jsval list" where
  "elements (JArr xs) = xs"
| "elements v = []"

fun numbers :: "jsval list \<Rightarrow> number list" where
  "numbers [] = []"
| "numbers (JNum x # vs) = x # numbers vs"
| "numbers (v # vs) = numbers vs"

fun number_of :: "jsval \<Rightarrow> number" where
  "number_of (JNum x) = x"
| "number_of v = 0"

definition loadFromStorage :: "host \<Rightarrow> clock \<Rightarrow> state \<Rightarrow> localStorage \<Rightarrow> state \<times> localStorage" where
  "loadFromStorage h clk s store =
     (case store of
        None \<Rightarrow> (s, store)
      | Some (NotJSON txt) \<Rightarrow> if txt = [] then (s, store) else (s, None)
      | Some (JSON data) \<Rightarrow>
          if \<not> validateSankalpData data then (s, None)
          else
            (case new_Date h (field_of data ''startDate'') of
               Inl e \<Rightarrow> (s, None)
             | Inr startDate \<Rightarrow>
                 if \<not> isValidDate startDate then (s, None)
                 else
                   (case reconstructDays h clk 0 (elements (field_of data ''sankalpDays'')) of
                      Inl e \<Rightarrow> (s, None)
                    | Inr reconstructedDays \<Rightarrow>
                        if JNum (of_nat (length reconstructedDays)) = field_of data ''totalDays''
                        then
                          (s\<lparr>sankalpStarted := ToBoolean (field_of data ''sankalpStarted''),
                             completedDays :=
                               new_Set (numbers (filter (completed_ok (field_of data ''totalDays''))
                                                        (elements (field_of data ''completedDays'')))),
                             sankalpDays := reconstructedDays,
                             totalDays := number_of (field_of data ''totalDays'')\<rparr>,
                           store)
                        else (s, None))))"

definition initializeApp :: "host \<Rightarrow> clock \<Rightarrow> state \<Rightarrow> localStorage \<Rightarrow> state \<times> localStorage" where
  "initializeApp h clk s store =
     (case loadFromStorage h clk (s\<lparr>isLoading := True\<rparr>) store of
        (s', store') \<Rightarrow> (s'\<lparr>isLoading := False\<rparr>, store'))"

text \<open>
  One day as saved: \<^verbatim>\<open>{...day, date: day.date.toISOString()}\<close>, where \<^verbatim>\<open>toISOString\<close>
  throws on an invalid date and \<^verbatim>\<open>JSON.stringify\<close> leaves out a property that holds
  \<^verbatim>\<open>undefined\<close>.
\<close>

definition savedDay :: "host \<Rightarrow> SankalpDay \<Rightarrow> js_error + jsval" where
  "savedDay h d =
     (case date d of
        None \<Rightarrow> Inl RangeError
      | Some t \<Rightarrow>
          Inr (JObj (filter (\<lambda>(k, v). v \<noteq> JUndefined)
                 [(''date'', JStr (toISOString h t)),
                  (''day'', day d),
                  (''isToday'', JBool (isToday_flag d)),
                  (''isPast'', JBool (isPast_flag d)),
                  (''isFuture'', JBool (isFuture_flag d)),
                  (''dateString'', dateString d),
                  (''dayName'', dayName d)])))"

fun savedDays :: "host \<Rightarrow> SankalpDay list \<Rightarrow> js_error + jsval list" where
  "savedDays h [] = Inr []"
| "savedDays h (d # ds) =
     (case savedDay h d of
        Inl e \<Rightarrow> Inl e
      | Inr v \<Rightarrow> (case savedDays h ds of Inl e \<Rightarrow> Inl e | Inr vs \<Rightarrow> Inr (v # vs)))"

text \<open>\<^verbatim>\<open>sankalpDays[0]?.date.toISOString() || ''\<close>, after the days were mapped without a throw.\<close>

definition startDate_text :: "host \<Rightarrow> SankalpDay list \<Rightarrow> string" where
  "startDate_text h ds =
     (case ds of
        [] \<Rightarrow> []
      | d # _ \<Rightarrow> (case date d of None \<Rightarrow> [] | Some t \<Rightarrow> toISOString h t))"

definition dataToSave :: "host \<Rightarrow> state \<Rightarrow> js_error + jsval" where
  "dataToSave h s =
     (case savedDays h (sankalpDays s) of
        Inl e \<Rightarrow> Inl e
      | Inr ds \<Rightarrow>
          Inr (JObj [(''totalDays'', JNum (totalDays s)),
                     (''completedDays'', JArr (map JNum (completedDays s))),
                     (''sankalpDays'', JArr ds),
                     (''startDate'', JStr (startDate_text h (sankalpDays s))),
                     (''sankalpStarted'', JBool (sankalpStarted s)),
                     (''version'', JNum STORAGE_VERSION)]))"

definition saveToStorage :: "host \<Rightarrow> state \<Rightarrow> localStorage \<Rightarrow> localStorage" where
  "saveToStorage h s store =
     (case dataToSave h s of
        Inl e \<Rightarrow> store
      | Inr d \<Rightarrow> if \<not> validateSankalpData d then store else Some (JSON d))"

text \<open>The effect that runs after every change of the ledger.\<close>

definition save_effect :: "host \<Rightarrow> state \<Rightarrow> localStorage \<Rightarrow> localStorage" where
  "save_effect h s store =
     (if sankalpStarted s \<and> \<not> isLoading s then saveToStorage h s store else store)"

section \<open>An example ledger\<close>

text \<open>
  A three-day ledger as it stands on its second day: day 1 is past, day 2 is today, day 3
  is future and already marked complete.
\<close>

definition example_days :: "SankalpDay list" where
  "example_days =
     [\<lparr>date = Some 1793527500000, day = JNum 1, isToday_flag = False, isPast_flag = True,
       isFuture_flag = False, dateString = JStr ''1/11/2026'', dayName = JStr ''Sunday''\<rparr>,
      \<lparr>date = Some 1793613900000, day = JNum 2, isToday_flag = True, isPast_flag = False,
       isFuture_flag = False, dateString = JStr ''2/11/2026'', dayName = JStr ''Monday''\<rparr>,
      \<lparr>date = Some 1793700300000, day = JNum 3, isToday_flag = False, isPast_flag = False,
       isFuture_flag = True, dateString = JStr ''3/11/2026'', dayName = JStr ''Tuesday''\<rparr>]"

definition example_ledger :: state where
  "example_ledger =
     \<lparr>days = ''3'', sankalpStarted = True, completedDays = [1, 3], sankalpDays = example_days,
      totalDays = 3, validationErrors = [], isLoading = False\<rparr>"

section \<open>An example host\<close>

text \<open>
  A host in the zone of Kolkata (five and a half hours east of UTC at all times) whose
  clock reads 2026-11-02, 10:05 UTC, and a millisecond more at every further reading.  Its
  \<^verbatim>\<open>toISOString\<close> and \<^verbatim>\<open>Date.parse\<close> are given on the time values of the example ledger,
  where they are the real texts.
\<close>

definition example_now :: int where
  "example_now = 1793613900000"

definition example_clock :: clock where
  "example_clock k = example_now + int k"

definition example_toISOString :: "int \<Rightarrow> string" where
  "example_toISOString t =
     (if t = 1793527500000 then ''2026-11-01T10:05:00.000Z''
      else if t = 1793613900000 then ''2026-11-02T10:05:00.000Z''
      else if t = 1793700300000 then ''2026-11-03T10:05:00.000Z''
      else if t = 1793786700000 then ''2026-11-04T10:05:00.000Z''
      else ''1970-01-01T00:00:00.000Z'')"

definition example_parse :: "string \<Rightarrow> int option" where
  "example_parse s =
     (if s = ''2026-11-01T10:05:00.000Z'' then Some 1793527500000
      else if s = ''2026-11-02T10:05:00.000Z'' then Some 1793613900000
      else if s = ''2026-11-03T10:05:00.000Z'' then Some 1793700300000
      else if s = ''2026-11-04T10:05:00.000Z'' then Some 1793786700000
      else if s = ''1970-01-01T00:00:00.000Z'' then Some 0
      else None)"

definition example_host :: host where
  "example_host =
     \<lparr>LocalTZA = (\<lambda>t isUTC. 19800000),
      Date_parse = example_parse,
      toISOString = example_toISOString,
      toLocaleDateString_hiIN = (\<lambda>t. ''date''),
      toLocaleDateString_hiIN_weekday = (\<lambda>t. ''weekday''),
      ToPrimitive_string = (\<lambda>v. Some ''[object Object]'')\<rparr>"

text \<open>
  The same host in the zone of New York around the end of daylight saving time in 2026:
  four hours west of UTC until 2026-11-01, 06:00 UTC (02:00 local time), five hours west
  from then on.  Its clock reads 2026-10-31, 16:00 UTC: noon of the last day of daylight
  saving time.
\<close>

definition new_york_host :: host where
  "new_york_host =
     example_host
       \<lparr>LocalTZA := (\<lambda>t isUTC.
          if isUTC then (if t < 1793512800000 then - 14400000 else - 18000000)
          else (if t < 1793498400000 then - 14400000 else - 18000000))\<rparr>"

definition new_york_clock :: clock where
  "new_york_clock k = 1793462400000 + int k"

text \<open>
  A clock of the host in Kolkata that passes the local midnight between 2026-11-02 and
  2026-11-03 after its second reading.
\<close>

definition midnight_clock :: clock where
  "midnight_clock k = (if k \<le> 1 then 1793644199999 else 1793644200000)"

definition exactly_one :: "bool \<Rightarrow> bool \<Rightarrow> bool \<Rightarrow> bool" where
  "exactly_one a b c = ((a \<and> \<not> b \<and> \<not> c) \<or> (\<not> a \<and> b \<and> \<not> c) \<or> (\<not> a \<and> \<not> b \<and> c))"

text \<open>A stored day entry whose flags are stale.\<close>

definition example_entry :: jsval where
  "example_entry =
     JObj [(''date'', JStr ''2026-11-03T10:05:00.000Z''), (''day'', JNum 3),
           (''isToday'', JBool True), (''isPast'', JBool True), (''isFuture'', JBool False),
           (''dateString'', JStr ''3/11/2026''), (''dayName'', JStr ''Tuesday'')]"

text \<open>
  Stored records: one that passes every check of the loader although it describes a started
  ledger of no days, and a family around the stale entry with the total, the completed
  list and the version left open.
\<close>

definition corrupt_record :: jsval where
  "corrupt_record =
     JObj [(''totalDays'', JNum 0),
           (''completedDays'', JArr []),
           (''sankalpDays'', JArr []),
           (''startDate'', JStr ''2026-11-02T10:05:00.000Z''),
           (''sankalpStarted'', JBool True),
           (''version'', JNum 1)]"

definition example_record :: "jsval \<Rightarrow> jsval \<Rightarrow> jsval \<Rightarrow> jsval" where
  "example_record td cs ver =
     JObj [(''totalDays'', td),
           (''completedDays'', cs),
           (''sankalpDays'', JArr [example_entry]),
           (''startDate'', JStr ''2026-11-03T10:05:00.000Z''),
           (''sankalpStarted'', JBool True),
           (''version'', ver)]"

text \<open>
  A stored record of a ledger that is not started, with two days and day 2 marked.
\<close>

definition leftover_record :: jsval where
  "leftover_record =
     JObj [(''totalDays'', JNum 2),
           (''completedDays'', JArr [JNum 2]),
           (''sankalpDays'', JArr [example_entry, example_entry]),
           (''startDate'', JStr ''2026-11-03T10:05:00.000Z''),
           (''sankalpStarted'', JBool False),
           (''version'', JNum 1)]"

text \<open>
  Two started ledgers that the component reaches at the example host: the one-day ledger
  started after the mount has loaded the record that is not started, and the ledger that
  the mount loads from the record of no days.
\<close>

definition leftover_started :: state where
  "leftover_started =
     startSankalp example_host example_clock
       ((fst (initializeApp example_host example_clock initial_state
                (Some (JSON leftover_record))))\<lparr>days := ''1''\<rparr>)"

definition zero_day_started :: state where
  "zero_day_started =
     fst (initializeApp example_host example_clock initial_state (Some (JSON corrupt_record)))"

text \<open>
  The three flags of a day record are the answers of the classifiers at the readings \<open>k\<close>,
  \<open>k + 1\<close> and \<open>k + 2\<close> of a clock; a day record with its flags computed afresh at these
  readings; a list of day records with the flags of each computed afresh, from the reading
  \<open>k\<close> on.
\<close>

definition flags_read :: "host \<Rightarrow> clock \<Rightarrow> nat \<Rightarrow> SankalpDay \<Rightarrow> bool" where
  "flags_read h clk k d =
     (isToday_flag d = isToday h (clk k) (date d) \<and>
      isPast_flag d = isPast h (clk (k + 1)) (date d) \<and>
      isFuture_flag d = isFuture h (clk (k + 2)) (date d))"

text \<open>The readings \<open>k\<close>, \<open>k + 1\<close> and \<open>k + 2\<close> of a clock fall on one local day.\<close>

definition same_local_day :: "host \<Rightarrow> clock \<Rightarrow> nat \<Rightarrow> bool" where
  "same_local_day h clk k =
     (Day (LocalTime h (clk (k + 1))) = Day (LocalTime h (clk k)) \<and>
      Day (LocalTime h (clk (k + 2))) = Day (LocalTime h (clk k)))"

definition flags_at :: "host \<Rightarrow> clock \<Rightarrow> nat \<Rightarrow> SankalpDay \<Rightarrow> SankalpDay" where
  "flags_at h clk k d =
     d\<lparr>isToday_flag := isToday h (clk k) (date d),
       isPast_flag := isPast h (clk (k + 1)) (date d),
       isFuture_flag := isFuture h (clk (k + 2)) (date d)\<rparr>"

fun refreshed :: "host \<Rightarrow> clock \<Rightarrow> nat \<Rightarrow> SankalpDay list \<Rightarrow> SankalpDay list" where
  "refreshed h clk k [] = []"
| "refreshed h clk k (d # ds) = flags_at h clk k d # refreshed h clk (k + 3) ds"

section \<open>Progress calculator\<close>

text \<open>
  \<^verbatim>\<open>Math.round((completedDays.size / totalDays) * 100)\<close> divides and multiplies in IEEE 754
  binary64: each operation returns the double nearest to the exact result, a tie going to
  the even significand.  \<open>binary64\<close> is that rounding for results in the normal range (53
  significant bits, no overflow and no subnormals), where the quotient of a set size by a
  day count and its hundredfold lie.  \<open>exponent x\<close> is the \<open>e\<close> with \<open>2^e \<le> x < 2^(e+1)\<close>.
  \<^verbatim>\<open>Math.round\<close> rounds half-way cases up.
\<close>

definition exponent :: "rat \<Rightarrow> int" where
  "exponent x =
     (case quotient_of x of
        (p, q) \<Rightarrow>
          (let e0 = int (floorlog 2 (nat p)) - int (floorlog 2 (nat q))
           in if 2 powi e0 \<le> x then e0 else e0 - 1))"

definition round_ties_even :: "rat \<Rightarrow> int" where
  "round_ties_even x =
     (let f = \<lfloor>x\<rfloor>; r = x - of_int f
      in if r < 1 / 2 then f
         else if r > 1 / 2 then f + 1
         else if even f then f else f + 1)"

definition binary64 :: "rat \<Rightarrow> rat" where
  "binary64 x =
     (if x = 0 then 0
      else
        (let ulp = 2 powi (exponent \<bar>x\<bar> - 52)
         in sgn x * of_int (round_ties_even (\<bar>x\<bar> / ulp)) * ulp))"

definition Math_round :: "rat \<Rightarrow> int" where
  "Math_round x = \<lfloor>x + 1 / 2\<rfloor>"

definition completionPercentage :: "state \<Rightarrow> number" where
  "completionPercentage s =
     (if totalDays s > 0
      then of_int (Math_round
             (binary64 (binary64 (of_nat (length (completedDays s)) / totalDays s) * 100)))
      else 0)"

text \<open>
  The 40-day ledger started at the example clock reading, as it stands 22 days later when
  the days 1 to 23 have been marked.
\<close>

definition ledger_on_day_23 :: state where
  "ledger_on_day_23 =
     \<lparr>days = ''40'', sankalpStarted = True, completedDays = map of_nat [1..<24],
      sankalpDays = refreshed example_host (\<lambda>k. example_now + 22 * msPerDay + int k) 0
                        (generateSankalpDays example_host example_clock 40),
      totalDays = 40, validationErrors = [], isLoading = False\<rparr>"

text \<open>The percentage as a function of the size of the completion set and the day count.\<close>

definition percentage_of :: "nat \<Rightarrow> number \<Rightarrow> number" where
  "percentage_of c t = of_int (Math_round (binary64 (binary64 (of_nat c / t) * 100)))"

text \<open>
  The invariant of the ledger: a started ledger has as many day records as \<open>totalDays\<close>, at
  least one, and every completed day lies within \<open>[1, totalDays]\<close>.
\<close>

definition ledger_invariant :: "state \<Rightarrow> bool" where
  "ledger_invariant s =
     (sankalpStarted s \<longrightarrow>
        of_nat (length (sankalpDays s)) = totalDays s \<and> 1 \<le> totalDays s \<and>
        (\<forall>x \<in> set (completedDays s). 1 \<le> x \<and> x \<le> totalDays s))"

section \<open>Properties of the ledger\<close>

subsection \<open>The completion set\<close>

lemma set_Set_add: "set (Set_add S x) = insert x (set S)"
  by (auto simp: Set_add_def)

lemma set_Set_delete: "set (Set_delete S x) = set S - {x}"
  by (auto simp: Set_delete_def)

subsection \<open>Toggling a day\<close>

text \<open>
  Claim C3.  \<^verbatim>\<open>toggleDay(dayNumber)\<close> changes nothing when \<open>dayNumber\<close> is outside
  \<open>[1, totalDays]\<close>, when no record carries that day number, or when the record found is
  flagged future and the day is not a member of the completion set.  A day in range whose
  record is flagged future and that is a member is removed from the set.
\<close>

theorem toggleDay_silent_rejection:
  "(n < 1 \<or> n > totalDays s \<longrightarrow> toggleDay s n = s) \<and>
   (find (\<lambda>d. day d = JNum n) (sankalpDays s) = None \<longrightarrow> toggleDay s n = s) \<and>
   (\<forall>d. find (\<lambda>d. day d = JNum n) (sankalpDays s) = Some d \<and> isFuture_flag d \<and>
        n \<notin> set (completedDays s) \<longrightarrow> toggleDay s n = s) \<and>
   (\<forall>d. 1 \<le> n \<and> n \<le> totalDays s \<and>
        find (\<lambda>d. day d = JNum n) (sankalpDays s) = Some d \<and> isFuture_flag d \<and>
        n \<in> set (completedDays s) \<longrightarrow>
        set (completedDays (toggleDay s n)) = set (completedDays s) - {n})"
  by (auto simp: toggleDay_def Let_def Set_has_def set_Set_delete split: option.split)

theorem toggleDay_silent_rejection_witness:
  "toggleDay example_ledger 0 = example_ledger \<and>
   toggleDay example_ledger 4 = example_ledger \<and>
   toggleDay (example_ledger\<lparr>sankalpDays := []\<rparr>) 2 = example_ledger\<lparr>sankalpDays := []\<rparr> \<and>
   toggleDay (example_ledger\<lparr>completedDays := [1]\<rparr>) 3 = example_ledger\<lparr>completedDays := [1]\<rparr> \<and>
   set (completedDays (toggleDay example_ledger 3)) = {1}"
proof -
  have a: "toggleDay example_ledger 0 = example_ledger"
    using toggleDay_silent_rejection [of 0 example_ledger] by simp
  have b: "toggleDay example_ledger 4 = example_ledger"
    using toggleDay_silent_rejection [of 4 example_ledger] by (simp add: example_ledger_def)
  have c: "toggleDay (example_ledger\<lparr>sankalpDays := []\<rparr>) 2 = example_ledger\<lparr>sankalpDays := []\<rparr>"
    using toggleDay_silent_rejection [of 2 "example_ledger\<lparr>sankalpDays := []\<rparr>"] by simp
  have d: "toggleDay (example_ledger\<lparr>completedDays := [1]\<rparr>) 3 = example_ledger\<lparr>completedDays := [1]\<rparr>"
    using toggleDay_silent_rejection [of 3 "example_ledger\<lparr>completedDays := [1]\<rparr>"]
    by (simp add: example_ledger_def example_days_def)
  have e: "set (completedDays (toggleDay example_ledger 3)) = {1}"
    using toggleDay_silent_rejection [of 3 example_ledger]
    by (simp add: example_ledger_def example_days_def insert_Diff_if)
  from a b c d e show ?thesis by blast
qed

text \<open>
  Claim C9.  For a day number in range whose record is not flagged future (a day that may
  be freshly marked), two toggles in a row give back the completion set.  The day records,
  and so the flag, are the same at both calls.
\<close>

theorem toggleDay_twice:
  assumes "1 \<le> n" and "n \<le> totalDays s"
    and "find (\<lambda>d. day d = JNum n) (sankalpDays s) = Some d"
    and "\<not> isFuture_flag d"
  shows "set (completedDays (toggleDay (toggleDay s n) n)) = set (completedDays s)"
  using assms
  by (auto simp: toggleDay_def Let_def Set_has_def set_Set_delete set_Set_add split: option.split)

theorem toggleDay_twice_witness:
  "set (completedDays (toggleDay (toggleDay example_ledger 1) 1)) = {1, 3} \<and>
   set (completedDays (toggleDay (toggleDay example_ledger 2) 2)) = {1, 3} \<and>
   set (completedDays (toggleDay example_ledger 2)) = {1, 2, 3}"
proof -
  have a: "set (completedDays (toggleDay (toggleDay example_ledger 1) 1)) = set (completedDays example_ledger)"
    by (rule toggleDay_twice [where d = "example_days ! 0"])
       (simp_all add: example_ledger_def example_days_def)
  have b: "set (completedDays (toggleDay (toggleDay example_ledger 2) 2)) = set (completedDays example_ledger)"
    by (rule toggleDay_twice [where d = "example_days ! 1"])
       (simp_all add: example_ledger_def example_days_def)
  have c: "set (completedDays (toggleDay example_ledger 2)) = {1, 2, 3}"
    by (auto simp: toggleDay_def example_ledger_def example_days_def Set_has_def Set_add_def)
  from a b c show ?thesis by (simp add: example_ledger_def)
qed

text \<open>
  Claim C10.  \<^verbatim>\<open>toggleDay(dayNumber)\<close>, accepted or rejected, leaves \<open>totalDays\<close>, the day
  records, the started flag and the rest of the component's state as they were, and changes
  the membership of no day other than \<open>dayNumber\<close>.
\<close>

theorem toggleDay_frame:
  "totalDays (toggleDay s n) = totalDays s \<and>
   sankalpDays (toggleDay s n) = sankalpDays s \<and>
   sankalpStarted (toggleDay s n) = sankalpStarted s \<and>
   days (toggleDay s n) = days s \<and>
   validationErrors (toggleDay s n) = validationErrors s \<and>
   isLoading (toggleDay s n) = isLoading s \<and>
   (\<forall>m. m \<noteq> n \<longrightarrow> (m \<in> set (completedDays (toggleDay s n)) \<longleftrightarrow> m \<in> set (completedDays s)))"
  by (auto simp: toggleDay_def Let_def Set_has_def set_Set_delete set_Set_add split: option.split)

theorem toggleDay_frame_witness:
  "sankalpDays (toggleDay example_ledger 2) = example_days \<and>
   totalDays (toggleDay example_ledger 2) = 3 \<and>
   1 \<in> set (completedDays (toggleDay example_ledger 2)) \<and>
   3 \<in> set (completedDays (toggleDay example_ledger 2)) \<and>
   2 \<in> set (completedDays (toggleDay example_ledger 2)) \<and>
   4 \<notin> set (completedDays (toggleDay example_ledger 2))"
proof -
  have "2 \<in> set (completedDays (toggleDay example_ledger 2))"
    by (auto simp: toggleDay_def example_ledger_def example_days_def Set_has_def Set_add_def)
  then show ?thesis
    using toggleDay_frame [of example_ledger 2] by (simp add: example_ledger_def)
qed

subsection \<open>The calendar functions\<close>

text \<open>
  \<open>YearFromDay\<close> returns the year that contains the day, as ECMA-262 defines
  \<open>YearFromTime\<close>; a year has \<open>DaysInYear\<close> days; the day of the month lies between 1 and 31.
\<close>

lemma div_bounds:
  fixes n k :: int
  assumes "0 < k"
  shows "k * (n div k) \<le> n" "n < k * (n div k) + k"
proof -
  have "n = k * (n div k) + n mod k" by simp
  moreover have "0 \<le> n mod k" "n mod k < k" using assms by simp_all
  ultimately show "k * (n div k) \<le> n" "n < k * (n div k) + k" by linarith+
qed

lemma DayFromYear_shift: "DayFromYear (y + 400 * c) = DayFromYear y + 146097 * c"
proof -
  have a: "(y + 400 * c - 1969) div 4 = (y - 1969) div 4 + 100 * c"
    using div_mult_self2 [of 4 "y - 1969" "100 * c"] by (simp add: algebra_simps)
  have b: "(y + 400 * c - 1901) div 100 = (y - 1901) div 100 + 4 * c"
    using div_mult_self2 [of 100 "y - 1901" "4 * c"] by (simp add: algebra_simps)
  have d: "(y + 400 * c - 1601) div 400 = (y - 1601) div 400 + c"
    using div_mult_self2 [of 400 "y - 1601" c] by (simp add: algebra_simps)
  show ?thesis unfolding DayFromYear_def a b d by simp
qed

lemma div_step:
  fixes n k :: int
  assumes "0 < k"
  shows "n div k \<le> (n + 1) div k" "(n + 1) div k \<le> n div k + 1"
proof -
  show "n div k \<le> (n + 1) div k" using assms by (simp add: zdiv_mono1)
  have "k * ((n + 1) div k) \<le> n + 1" using div_bounds(1) [OF assms] by blast
  moreover have "n < k * (n div k) + k" using div_bounds(2) [OF assms] by blast
  ultimately have "k * ((n + 1) div k) < k * (n div k + 2)"
    using assms by (simp add: algebra_simps)
  then have "(n + 1) div k < n div k + 2" using assms by (simp only: mult_less_cancel_left_pos)
  then show "(n + 1) div k \<le> n div k + 1" by simp
qed

lemma DayFromYear_step:
  "364 \<le> DayFromYear (y + 1) - DayFromYear y \<and> DayFromYear (y + 1) - DayFromYear y \<le> 367"
proof -
  define a where "a = (y - 1969) div 4"
  define a' where "a' = (y - 1969 + 1) div 4"
  define b where "b = (y - 1901) div 100"
  define b' where "b' = (y - 1901 + 1) div 100"
  define c where "c = (y - 1601) div 400"
  define c' where "c' = (y - 1601 + 1) div 400"
  have sa: "a \<le> a'" "a' \<le> a + 1" unfolding a_def a'_def by (rule div_step; simp)+
  have sb: "b \<le> b'" "b' \<le> b + 1" unfolding b_def b'_def by (rule div_step; simp)+
  have sc: "c \<le> c'" "c' \<le> c + 1" unfolding c_def c'_def by (rule div_step; simp)+
  have e: "y + 1 - 1969 = y - 1969 + 1" "y + 1 - 1901 = y - 1901 + 1" "y + 1 - 1601 = y - 1601 + 1"
    by simp_all
  have 0: "DayFromYear y = 365 * (y - 1970) + a - b + c"
    by (simp add: DayFromYear_def a_def b_def c_def)
  have 1: "DayFromYear (y + 1) = 365 * (y + 1 - 1970) + a' - b' + c'"
    unfolding DayFromYear_def e a'_def b'_def c'_def by simp
  have "364 \<le> DayFromYear (y + 1) - DayFromYear y"
    unfolding 0 1 using sa sb sc by simp
  moreover have "DayFromYear (y + 1) - DayFromYear y \<le> 367"
    unfolding 0 1 using sa sb sc by simp
  ultimately show ?thesis by simp
qed


lemma DayFromYear_1970: 
  "DayFromYear (1970 + g) = 365 * g + (g + 1) div 4 - (g + 69) div 100 + (g + 369) div 400"
  by (simp add: DayFromYear_def algebra_simps)

lemma estimate_not_late:
  assumes "0 \<le> g" and "g \<le> 399"
  shows "DayFromYear (1970 + g) \<le> 366 * g"
proof -
  define A where "A = (g + 1) div 4"
  define B where "B = (g + 69) div 100"
  define C where "C = (g + 369) div 400"
  have a: "4 * A \<le> g + 1" unfolding A_def by (rule div_bounds(1)) simp
  have b: "g + 69 < 100 * B + 100" unfolding B_def by (rule div_bounds(2)) simp
  have c: "400 * C \<le> g + 369" unfolding C_def by (rule div_bounds(1)) simp
  have e: "DayFromYear (1970 + g) = 365 * g + A - B + C"
    by (simp add: DayFromYear_1970 A_def B_def C_def)
  show ?thesis
  proof (cases "g < 2")
    case True
    then have "g = 0 \<or> g = 1" using assms by linarith
    then show ?thesis by (auto simp: DayFromYear_1970)
  next
    case False
    then have "400 * (A - B + C) \<le> 400 * g" using a b c by simp
    then have "A - B + C \<le> g" by simp
    then show ?thesis unfolding e by simp
  qed
qed

lemma estimate_not_early:
  assumes "0 \<le> g" and "g \<le> 399"
  shows "366 * g + 366 \<le> DayFromYear (1970 + (g + 3))"
proof -
  define A where "A = (g + 3 + 1) div 4"
  define B where "B = (g + 3 + 69) div 100"
  define C where "C = (g + 3 + 369) div 400"
  have a: "g + 3 + 1 < 4 * A + 4" unfolding A_def by (rule div_bounds(2)) simp
  have b: "100 * B \<le> g + 3 + 69" unfolding B_def by (rule div_bounds(1)) simp
  have c: "0 \<le> C" unfolding C_def using assms by simp
  have e: "DayFromYear (1970 + (g + 3)) = 365 * (g + 3) + A - B + C"
    unfolding DayFromYear_1970 A_def B_def C_def by simp
  have "100 * g \<le> 100 * (729 + A - B + C)" using a b c assms by simp
  then have "g \<le> 729 + A - B + C" by simp
  then show ?thesis unfolding e by simp
qed

lemma YearFromDay_correct:
  "DayFromYear (YearFromDay d) \<le> d \<and> d < DayFromYear (YearFromDay d + 1)"
proof -
  define c where "c = d div 146097"
  define r where "r = d mod 146097"
  define g where "g = r div 366"
  have d: "d = r + 146097 * c" by (simp add: c_def r_def)
  have r: "0 \<le> r" "r < 146097" by (simp_all add: r_def)
  have g0: "0 \<le> g" using r by (simp add: g_def)
  have "g \<le> 146096 div 366" unfolding g_def using r by (intro zdiv_mono1) simp_all
  then have g1: "g \<le> 399" by simp
  have gr: "366 * g \<le> r" "r < 366 * g + 366"
    unfolding g_def by (rule div_bounds; simp)+
  have F: "DayFromYear (1970 + 400 * c + g + j) = DayFromYear (1970 + (g + j)) + 146097 * c" for j
    using DayFromYear_shift [of "1970 + (g + j)" c] by (simp add: algebra_simps)
  have lo: "DayFromYear (1970 + (g + 0)) \<le> r"
    using estimate_not_late [OF g0 g1] gr by simp
  have hi: "r < DayFromYear (1970 + (g + 3))"
    using estimate_not_early [OF g0 g1] gr by linarith
  have Y: "YearFromDay d =
      (if DayFromYear (1970 + (g + 2)) \<le> r then 1970 + 400 * c + g + 2
       else if DayFromYear (1970 + (g + 1)) \<le> r then 1970 + 400 * c + g + 1
       else 1970 + 400 * c + g + 0)"
    unfolding YearFromDay_def Let_def c_def [symmetric] r_def [symmetric] g_def [symmetric]
    using F [of 2] F [of 1] d by (simp add: algebra_simps)
  have S: "DayFromYear (k + (400 * c + g)) = DayFromYear (k + g) + 146097 * c" for k
    using DayFromYear_shift [of "k + g" c] by (simp add: algebra_simps)
  have S': "DayFromYear (k + 400 * c + g) = DayFromYear (k + g) + 146097 * c" for k
    using S [of k] by (simp add: add.assoc)
  show ?thesis
  proof (cases "DayFromYear (1970 + (g + 2)) \<le> r")
    case True
    then show ?thesis
      unfolding Y using hi d by (simp add: S S')
  next
    case n2: False
    show ?thesis
    proof (cases "DayFromYear (1970 + (g + 1)) \<le> r")
      case True
      then show ?thesis
        unfolding Y using n2 d by (simp add: S S')
    next
      case False
      then show ?thesis
        unfolding Y using n2 lo d by (simp add: S S')
    qed
  qed
qed

lemma div_succ:
  fixes n k :: int
  assumes "1 < k"
  shows "(n + 1) div k - n div k = (if (n + 1) mod k = 0 then 1 else 0)"
proof -
  have k: "0 < k" using assms by simp
  have e1: "n + 1 = k * ((n + 1) div k) + (n + 1) mod k" by simp
  have e0: "n = k * (n div k) + n mod k" by simp
  have m1: "0 \<le> (n + 1) mod k" "(n + 1) mod k < k" using k by simp_all
  have m0: "0 \<le> n mod k" "n mod k < k" using k by simp_all
  note s = div_step [OF k, of n]
  show ?thesis
  proof (cases "(n + 1) mod k = 0")
    case True
    have "(n + 1) div k \<noteq> n div k"
    proof
      assume "(n + 1) div k = n div k"
      then have "n + 1 = k * (n div k)" using e1 True by simp
      then show False using e0 m0 by linarith
    qed
    then show ?thesis using s True by simp
  next
    case False
    have "(n + 1) div k \<noteq> n div k + 1"
    proof
      assume a: "(n + 1) div k = n div k + 1"
      have "n + 1 = k * (n div k + 1) + (n + 1) mod k" using e1 a by simp
      then have "n + 1 = k * (n div k) + k + (n + 1) mod k" by (simp add: algebra_simps)
      then have "(n + 1) mod k = n mod k + 1 - k" using e0 by linarith
      then show False using m0 m1 False by linarith
    qed
    then show ?thesis using s False by simp
  qed
qed

lemma DaysInYear_DayFromYear: "DayFromYear (y + 1) - DayFromYear y = DaysInYear y"
proof -
  have e: "y + 1 - 1969 = y - 1969 + 1" "y + 1 - 1901 = y - 1901 + 1" "y + 1 - 1601 = y - 1601 + 1"
    by simp_all
  have m4: "(y - 1969 + 1) mod 4 = y mod 4"
    using mod_mult_self2 [of "y - 1968" 4 492] by (simp add: algebra_simps)
  have m100: "(y - 1901 + 1) mod 100 = y mod 100"
    using mod_mult_self2 [of "y - 1900" 100 19] by (simp add: algebra_simps)
  have m400: "(y - 1601 + 1) mod 400 = y mod 400"
    using mod_mult_self2 [of "y - 1600" 400 4] by (simp add: algebra_simps)
  have a: "(y - 1969 + 1) div 4 = (y - 1969) div 4 + (if y mod 4 = 0 then 1 else 0)"
    using div_succ [of 4 "y - 1969"] unfolding m4 by simp
  have b: "(y - 1901 + 1) div 100 = (y - 1901) div 100 + (if y mod 100 = 0 then 1 else 0)"
    using div_succ [of 100 "y - 1901"] unfolding m100 by simp
  have c: "(y - 1601 + 1) div 400 = (y - 1601) div 400 + (if y mod 400 = 0 then 1 else 0)"
    using div_succ [of 400 "y - 1601"] unfolding m400 by simp
  have i1: "y mod 4 = 0" if "y mod 100 = 0"
  proof -
    have "(100::int) dvd y" using that by (simp add: dvd_eq_mod_eq_0)
    moreover have "(4::int) dvd 100" by simp
    ultimately have "4 dvd y" by (rule dvd_trans [rotated])
    then show ?thesis by (simp add: dvd_eq_mod_eq_0)
  qed
  have i2: "y mod 100 = 0" if "y mod 400 = 0"
  proof -
    have "(400::int) dvd y" using that by (simp add: dvd_eq_mod_eq_0)
    moreover have "(100::int) dvd 400" by simp
    ultimately have "100 dvd y" by (rule dvd_trans [rotated])
    then show ?thesis by (simp add: dvd_eq_mod_eq_0)
  qed
  define A where "A = (y - 1969) div 4"
  define B where "B = (y - 1901) div 100"
  define C where "C = (y - 1601) div 400"
  have d: "DayFromYear (y + 1) - DayFromYear y
           = 365 + (if y mod 4 = 0 then 1 else 0) - (if y mod 100 = 0 then 1 else 0)
                 + (if y mod 400 = 0 then 1 else 0)"
    unfolding DayFromYear_def e a b c A_def [symmetric] B_def [symmetric] C_def [symmetric]
    by simp
  show ?thesis
  proof (cases "y mod 4 = 0")
    case False
    then have n100: "y mod 100 \<noteq> 0" using i1 by auto
    then have "y mod 400 \<noteq> 0" using i2 by auto
    then show ?thesis using False n100 unfolding d by (simp add: DaysInYear_def)
  next
    case t4: True
    show ?thesis
    proof (cases "y mod 100 = 0")
      case False
      then have "y mod 400 \<noteq> 0" using i2 by auto
      then show ?thesis using t4 False unfolding d by (simp add: DaysInYear_def)
    next
      case True
      then show ?thesis using t4 unfolding d by (simp add: DaysInYear_def)
    qed
  qed
qed

lemma DayWithinYear_range:
  "0 \<le> DayWithinYear t \<and> DayWithinYear t < DaysInYear (YearFromTime t)"
  using YearFromDay_correct [of "Day t"] DaysInYear_DayFromYear [of "YearFromTime t"]
  by (simp add: DayWithinYear_def YearFromTime_def)

lemma DateFromTime_range: "1 \<le> DateFromTime t \<and> DateFromTime t \<le> 31"
proof -
  define d where "d = DayWithinYear t"
  define l where "l = InLeapYear t"
  have l: "l = 0 \<or> l = 1" by (simp add: l_def InLeapYear_def)
  have "d < DaysInYear (YearFromTime t)" "0 \<le> d"
    using DayWithinYear_range [of t] by (simp_all add: d_def)
  moreover have "DaysInYear (YearFromTime t) = 365 + l"
    by (auto simp: l_def InLeapYear_def DaysInYear_def)
  ultimately have d: "0 \<le> d" "d < 365 + l" by simp_all
  show ?thesis
    unfolding DateFromTime_def MonthFromTime_def Let_def d_def [symmetric] l_def [symmetric]
    using d l by auto
qed

subsection \<open>The calendar and the day generator\<close>

lemma MonthFromTime_range: "0 \<le> MonthFromTime t \<and> MonthFromTime t \<le> 11"
  by (simp add: MonthFromTime_def Let_def)

lemma Day_from_fields:
  "DayFromYear (YearFromTime t) + DaysBeforeMonth (InLeapYear t) (MonthFromTime t)
     + DateFromTime t - 1 = Day t"
  by (simp add: DateFromTime_def DaysBeforeMonth_def DayWithinYear_def Let_def)

lemma MakeDay_fields:
  "MakeDay (YearFromTime t) (MonthFromTime t) (DateFromTime t + i) = Day t + i"
proof -
  have m: "MonthFromTime t div 12 = 0" "MonthFromTime t mod 12 = MonthFromTime t"
    using MonthFromTime_range [of t] by simp_all
  have "MakeDay (YearFromTime t) (MonthFromTime t) (DateFromTime t + i)
        = DayFromYear (YearFromTime t) + DaysBeforeMonth (InLeapYear t) (MonthFromTime t)
          + (DateFromTime t + i) - 1"
    by (simp add: MakeDay_def Let_def m InLeapYear_def)
  also have "\<dots> = Day t + i"
    using Day_from_fields [of t] by simp
  finally show ?thesis .
qed

text \<open>
  \<^verbatim>\<open>date.setDate(today.getDate() + i)\<close> on a copy of \<^verbatim>\<open>today\<close> asks the host for the local day
  \<open>i\<close> days after today's, at today's local time of day; the calendar carries the day of
  the month over the ends of months and years.
\<close>

lemma setDate_getDate:
  "setDate h (Some now) (map_option (\<lambda>d. d + int i) (getDate h (Some now)))
     = TimeClip (days_later h now i)"
  by (simp add: setDate_def getDate_def Let_def MakeDay_fields days_later_def)

lemma MakeDate_Day:
  "MakeDate (Day x + int i) (TimeWithinDay x) = x + int i * msPerDay"
  by (simp add: MakeDate_def Day_def TimeWithinDay_def algebra_simps)

lemma Day_add_days: "Day (t + int i * msPerDay) = Day t + int i"
  by (simp add: Day_def msPerDay_def)

lemma TimeWithinDay_add_days: "TimeWithinDay (t + int i * msPerDay) = TimeWithinDay t"
  by (simp add: TimeWithinDay_def msPerDay_def)

lemma days_later_eq:
  "days_later h now i
   = LocalTime h now + int i * msPerDay - LocalTZA h (LocalTime h now + int i * msPerDay) False"
  by (simp add: days_later_def MakeDate_Day UTC_def)

text \<open>In a zone whose offset never changes, the local day \<open>i\<close> days later is \<open>i\<close> times 24 hours later.\<close>

lemma days_later_fixed:
  assumes "\<forall>t b. LocalTZA h t b = z"
  shows "days_later h now i = now + int i * msPerDay"
  using assms by (simp add: days_later_eq LocalTime_def)

text \<open>
  There the dates of a ledger of up to 365 days are time values when the clock is a time
  value at least 364 days before the end of the range of time values.
\<close>

lemma days_later_fixed_range:
  assumes "\<forall>t b. LocalTZA h t b = z"
    and "- maxTime \<le> now" and "now + 364 * msPerDay \<le> maxTime" and "j < 365"
  shows "\<bar>days_later h now j\<bar> \<le> maxTime"
proof -
  have "int j \<le> 364" using assms(4) by simp
  then have "int j * msPerDay \<le> 364 * msPerDay"
    by (simp add: msPerDay_def)
  moreover have "0 \<le> int j * msPerDay" by (simp add: msPerDay_def)
  ultimately show ?thesis
    unfolding days_later_fixed [OF assms(1)] using assms(2,3) by linarith
qed

text \<open>
  In a zone whose offsets are at most a day, the dates of a ledger of up to 365 days are
  time values when the clock is two days inside the range of time values and 366 days
  before its end.
\<close>

lemma days_later_range:
  assumes "\<forall>t b. \<bar>LocalTZA h t b\<bar> \<le> msPerDay"
    and "- maxTime + 2 * msPerDay \<le> now" and "now + 366 * msPerDay \<le> maxTime" and "j < 365"
  shows "\<bar>days_later h now j\<bar> \<le> maxTime"
proof -
  define a where "a = LocalTZA h now True"
  define b where "b = LocalTZA h (LocalTime h now + int j * msPerDay) False"
  have ab: "\<bar>a\<bar> \<le> msPerDay" "\<bar>b\<bar> \<le> msPerDay"
    using assms(1) by (simp_all add: a_def b_def)
  have d: "days_later h now j = now + a + int j * msPerDay - b"
    by (simp add: days_later_eq b_def a_def LocalTime_def)
  have "int j \<le> 364" using assms(4) by simp
  then have up: "int j * msPerDay \<le> 364 * msPerDay"
    by (simp add: msPerDay_def)
  have lo: "0 \<le> int j * msPerDay" by (simp add: msPerDay_def)
  show ?thesis
    unfolding d using ab up lo assms(2,3) by linarith
qed

lemma generate_loop_valid:
  assumes "\<forall>j. i \<le> j \<and> j < n \<longrightarrow> \<bar>days_later h (clk 0) j\<bar> \<le> maxTime"
  shows "generate_loop h clk (of_nat n) i k acc
         = acc @ map (\<lambda>j. new_day h clk (k + 3 * (j - i)) (Some (days_later h (clk 0) j)) j) [i..<n]"
  using assms
proof (induction "n - i" arbitrary: i k acc)
  case 0
  then have "\<not> (rat_of_nat i < of_nat n)" by simp
  then show ?case using 0 by (subst generate_loop.simps) simp
next
  case (Suc m)
  then have lt: "i < n" by simp
  then have r: "rat_of_nat i < of_nat n" by simp
  have ok: "\<bar>days_later h (clk 0) i\<bar> \<le> maxTime" using Suc.prems lt by simp
  have d: "setDate h (Some (clk 0)) (map_option (\<lambda>d. d + int i) (getDate h (Some (clk 0))))
             = Some (days_later h (clk 0) i)"
    using ok by (simp add: setDate_getDate TimeClip_def)
  have m: "m = n - Suc i" using Suc.hyps by simp
  let ?nd = "new_day h clk k (Some (days_later h (clk 0) i)) i"
  have ih: "generate_loop h clk (of_nat n) (Suc i) (k + 3) (acc @ [?nd])
            = (acc @ [?nd])
              @ map (\<lambda>j. new_day h clk (k + 3 + 3 * (j - Suc i)) (Some (days_later h (clk 0) j)) j)
                    [Suc i..<n]"
    by (rule Suc.hyps(1) [OF m]) (use Suc.prems in auto)
  have idx: "map (\<lambda>j. new_day h clk (k + 3 + 3 * (j - Suc i)) (Some (days_later h (clk 0) j)) j)
                 [Suc i..<n]
             = map (\<lambda>j. new_day h clk (k + 3 * (j - i)) (Some (days_later h (clk 0) j)) j)
                   [Suc i..<n]"
  proof (rule map_cong [OF refl])
    fix j assume "j \<in> set [Suc i..<n]"
    then have e: "k + 3 + 3 * (j - Suc i) = k + 3 * (j - i)" by auto
    show "new_day h clk (k + 3 + 3 * (j - Suc i)) (Some (days_later h (clk 0) j)) j
               = new_day h clk (k + 3 * (j - i)) (Some (days_later h (clk 0) j)) j"
      unfolding e ..
  qed
  have "generate_loop h clk (of_nat n) i k acc
        = generate_loop h clk (of_nat n) (Suc i) (k + 3) (acc @ [?nd])"
    by (subst generate_loop.simps) (simp add: r lt d isValidDate_def Let_def del: generate_loop.simps)
  also note ih
  finally show ?case using lt by (simp add: upt_conv_Cons idx)
qed

lemma generateSankalpDays_eq:
  assumes "\<forall>j<n. \<bar>days_later h (clk 0) j\<bar> \<le> maxTime"
  shows "generateSankalpDays h clk (of_nat n)
         = map (\<lambda>j. new_day h clk (1 + 3 * j) (Some (days_later h (clk 0) j)) j) [0..<n]"
  unfolding generateSankalpDays_def
  using generate_loop_valid [of 0 n h clk 1 "[]"] assms
  by simp

text \<open>
  Claim C5.  Let each of the first \<open>numDays\<close> dates that the host computes from today be a
  time value (in a zone with offsets of at most a day they are when the clock is two days
  inside the range of time values and 366 days before its end: \<open>days_later_range\<close>).  Then
  \<^verbatim>\<open>generateSankalpDays(numDays)\<close> returns \<open>numDays\<close> records, numbered 1 to \<open>numDays\<close> in order,
  and the record at index \<open>i\<close> holds the time value that the host gives to the local day
  \<open>i\<close> days after today's local day, at today's local time of day.  This is the calendar's
  arithmetic, not the addition of \<open>i\<close> times 24 hours: where the host maps that local time
  back to itself (it is not a time that a change of offset skips), the date's local day is
  today's local day plus \<open>i\<close> and its local time of day is today's, whatever the offsets in
  effect on the two days.
\<close>

theorem generateSankalpDays_correct:
  assumes "\<forall>j<n. \<bar>days_later h (clk 0) j\<bar> \<le> maxTime"
  shows "length (generateSankalpDays h clk (of_nat n)) = n \<and>
         map day (generateSankalpDays h clk (of_nat n)) = map (\<lambda>k. JNum (of_nat k)) [1..<n + 1] \<and>
         (\<forall>i<n. date (generateSankalpDays h clk (of_nat n) ! i) = Some (days_later h (clk 0) i) \<and>
                 days_later h (clk 0) i
                   = UTC h (MakeDate (Day (LocalTime h (clk 0)) + int i)
                                     (TimeWithinDay (LocalTime h (clk 0)))) \<and>
                 (LocalTime h (days_later h (clk 0) i) = LocalTime h (clk 0) + int i * msPerDay \<longrightarrow>
                    Day (LocalTime h (days_later h (clk 0) i)) = Day (LocalTime h (clk 0)) + int i \<and>
                    TimeWithinDay (LocalTime h (days_later h (clk 0) i))
                      = TimeWithinDay (LocalTime h (clk 0))))"
proof -
  have eq: "generateSankalpDays h clk (of_nat n)
            = map (\<lambda>j. new_day h clk (1 + 3 * j) (Some (days_later h (clk 0) j)) j) [0..<n]"
    using assms by (rule generateSankalpDays_eq)
  have len: "length (generateSankalpDays h clk (of_nat n)) = n"
    by (simp add: eq)
  have "map day (generateSankalpDays h clk (of_nat n)) = map (\<lambda>j. JNum (of_nat j + 1)) [0..<n]"
    by (simp add: eq new_day_def comp_def)
  also have "\<dots> = map (\<lambda>k. JNum (of_nat k)) (map Suc [0..<n])"
    by (simp add: comp_def)
  also have "map Suc [0..<n] = [1..<n + 1]"
    by (simp add: map_Suc_upt)
  finally have days: "map day (generateSankalpDays h clk (of_nat n))
                      = map (\<lambda>k. JNum (of_nat k)) [1..<n + 1]" .
  have dates: "\<forall>i<n. date (generateSankalpDays h clk (of_nat n) ! i) = Some (days_later h (clk 0) i) \<and>
                 days_later h (clk 0) i
                   = UTC h (MakeDate (Day (LocalTime h (clk 0)) + int i)
                                     (TimeWithinDay (LocalTime h (clk 0)))) \<and>
                 (LocalTime h (days_later h (clk 0) i) = LocalTime h (clk 0) + int i * msPerDay \<longrightarrow>
                    Day (LocalTime h (days_later h (clk 0) i)) = Day (LocalTime h (clk 0)) + int i \<and>
                    TimeWithinDay (LocalTime h (days_later h (clk 0) i))
                      = TimeWithinDay (LocalTime h (clk 0)))"
  proof (intro allI impI conjI)
    fix i assume "i < n"
    then show "date (generateSankalpDays h clk (of_nat n) ! i) = Some (days_later h (clk 0) i)"
      by (simp add: eq new_day_def)
    show "days_later h (clk 0) i
            = UTC h (MakeDate (Day (LocalTime h (clk 0)) + int i)
                              (TimeWithinDay (LocalTime h (clk 0))))"
      by (simp add: days_later_def)
  next
    fix i
    assume l: "LocalTime h (days_later h (clk 0) i) = LocalTime h (clk 0) + int i * msPerDay"
    show "Day (LocalTime h (days_later h (clk 0) i)) = Day (LocalTime h (clk 0)) + int i"
      unfolding l by (rule Day_add_days)
    show "TimeWithinDay (LocalTime h (days_later h (clk 0) i)) = TimeWithinDay (LocalTime h (clk 0))"
      unfolding l by (rule TimeWithinDay_add_days)
  qed
  from len days dates show ?thesis by blast
qed

lemma upt_1_4: "[Suc 0..<4] = [1, 2, 3]"
  by (simp add: upt_conv_Cons)

lemma less_3: "j < 3 \<Longrightarrow> j = 0 \<or> j = 1 \<or> j = (2::nat)"
  by auto

lemma new_york_days_later:
  "days_later new_york_host (new_york_clock 0) 0 = 1793462400000"
  "days_later new_york_host (new_york_clock 0) 1 = 1793552400000"
  "days_later new_york_host (new_york_clock 0) 2 = 1793638800000"
  by (simp_all add: days_later_eq LocalTime_def new_york_host_def new_york_clock_def
      example_host_def msPerDay_def)

text \<open>
  In New York, started at noon of the last day of daylight saving time, the second day of
  the ledger is dated noon of the next local day, which is 25 hours later.
\<close>

theorem generateSankalpDays_correct_witness:
  "length (generateSankalpDays new_york_host new_york_clock 3) = 3 \<and>
   map day (generateSankalpDays new_york_host new_york_clock 3) = [JNum 1, JNum 2, JNum 3] \<and>
   date (generateSankalpDays new_york_host new_york_clock 3 ! 0) = Some 1793462400000 \<and>
   date (generateSankalpDays new_york_host new_york_clock 3 ! 1) = Some 1793552400000 \<and>
   date (generateSankalpDays new_york_host new_york_clock 3 ! 2) = Some 1793638800000 \<and>
   1793552400000 = new_york_clock 0 + 25 * 3600000 \<and>
   Day (LocalTime new_york_host 1793552400000) = Day (LocalTime new_york_host (new_york_clock 0)) + 1 \<and>
   TimeWithinDay (LocalTime new_york_host 1793552400000)
     = TimeWithinDay (LocalTime new_york_host (new_york_clock 0))"
proof -
  have a: "\<forall>j<3. \<bar>days_later new_york_host (new_york_clock 0) j\<bar> \<le> maxTime"
  proof (intro allI impI)
    fix j :: nat assume "j < 3"
    then have "j = 0 \<or> j = 1 \<or> j = 2" by (rule less_3)
    then show "\<bar>days_later new_york_host (new_york_clock 0) j\<bar> \<le> maxTime"
      using new_york_days_later by (auto simp: maxTime_def)
  qed
  note g = generateSankalpDays_correct [where n = 3 and h = new_york_host and clk = new_york_clock, OF a]
  have len: "length (generateSankalpDays new_york_host new_york_clock 3) = 3"
    using g by simp
  have d: "map day (generateSankalpDays new_york_host new_york_clock 3) = [JNum 1, JNum 2, JNum 3]"
    using g by (simp add: upt_1_4)
  have lt: "(0::nat) < 3" "(1::nat) < 3" "(2::nat) < 3" by simp_all
  have e0: "date (generateSankalpDays new_york_host new_york_clock 3 ! 0) = Some 1793462400000"
    using g lt(1) new_york_days_later(1) by (metis of_nat_numeral)
  have e1: "date (generateSankalpDays new_york_host new_york_clock 3 ! 1) = Some 1793552400000"
    using g lt(2) new_york_days_later(2) by (metis of_nat_numeral)
  have e2: "date (generateSankalpDays new_york_host new_york_clock 3 ! 2) = Some 1793638800000"
    using g lt(3) new_york_days_later(3) by (metis of_nat_numeral)
  have "LocalTime new_york_host 1793552400000
        = LocalTime new_york_host (new_york_clock 0) + int 1 * msPerDay"
    by (simp add: LocalTime_def new_york_host_def new_york_clock_def msPerDay_def)
  then have l: "LocalTime new_york_host (days_later new_york_host (new_york_clock 0) 1)
           = LocalTime new_york_host (new_york_clock 0) + int 1 * msPerDay"
    unfolding new_york_days_later .
  from g lt(2) l
  have "Day (LocalTime new_york_host (days_later new_york_host (new_york_clock 0) 1))
          = Day (LocalTime new_york_host (new_york_clock 0)) + int 1 \<and>
        TimeWithinDay (LocalTime new_york_host (days_later new_york_host (new_york_clock 0) 1))
          = TimeWithinDay (LocalTime new_york_host (new_york_clock 0))"
    by blast
  then have f: "Day (LocalTime new_york_host 1793552400000)
                  = Day (LocalTime new_york_host (new_york_clock 0)) + 1 \<and>
                TimeWithinDay (LocalTime new_york_host 1793552400000)
                  = TimeWithinDay (LocalTime new_york_host (new_york_clock 0))"
    unfolding new_york_days_later by simp
  have h: "(1793552400000::int) = new_york_clock 0 + 25 * 3600000"
    by (simp add: new_york_clock_def)
  from len d e0 e1 e2 h f show ?thesis by simp
qed

subsection \<open>The date classifier\<close>

lemma setHours_midnight:
  "setHours h (Some t) 0 0 0 0 = TimeClip (local_midnight h t)"
  by (simp add: setHours_def Let_def MakeTime_def local_midnight_def)

lemma local_midnight_eq:
  "local_midnight h t
   = Day (LocalTime h t) * msPerDay - LocalTZA h (Day (LocalTime h t) * msPerDay) False"
  by (simp add: local_midnight_def MakeDate_def UTC_def)

lemma local_midnight_Day:
  "Day (LocalTime h a) = Day (LocalTime h b) \<Longrightarrow> local_midnight h a = local_midnight h b"
  by (simp add: local_midnight_def)

lemma fields_of_Day:
  assumes "Day a = Day b"
  shows "YearFromTime a = YearFromTime b" "MonthFromTime a = MonthFromTime b"
        "DateFromTime a = DateFromTime b" "WeekDay a = WeekDay b"
proof -
  show y: "YearFromTime a = YearFromTime b" using assms by (simp add: YearFromTime_def)
  have l: "InLeapYear a = InLeapYear b" using y by (simp add: InLeapYear_def)
  have d: "DayWithinYear a = DayWithinYear b" using y assms by (simp add: DayWithinYear_def)
  show m: "MonthFromTime a = MonthFromTime b" using l d by (simp add: MonthFromTime_def)
  show "DateFromTime a = DateFromTime b" using l d m by (simp add: DateFromTime_def)
  show "WeekDay a = WeekDay b" using assms by (simp add: WeekDay_def)
qed

lemma Day_of_fields:
  assumes "YearFromTime a = YearFromTime b" and "MonthFromTime a = MonthFromTime b"
    and "DateFromTime a = DateFromTime b"
  shows "Day a = Day b"
proof -
  have "InLeapYear a = InLeapYear b" using assms(1) by (simp add: InLeapYear_def)
  then show ?thesis using Day_from_fields [of a] Day_from_fields [of b] assms by simp
qed

lemma isToday_iff:
  "isToday h now (Some t) \<longleftrightarrow> Day (LocalTime h t) = Day (LocalTime h now)"
  using fields_of_Day [of "LocalTime h t" "LocalTime h now"]
        Day_of_fields [of "LocalTime h t" "LocalTime h now"]
  by (auto simp: isToday_def toDateString_def Let_def)

lemma isPast_iff:
  assumes "setHours h (Some now) 0 0 0 0 \<noteq> None" and "setHours h (Some t) 0 0 0 0 \<noteq> None"
  shows "isPast h now (Some t) \<longleftrightarrow> local_midnight h t < local_midnight h now"
  using assms
  by (simp add: isPast_def Let_def setHours_midnight TimeClip_def Date_less_def split: if_splits)

lemma isFuture_iff:
  assumes "setHours h (Some now) 0 0 0 0 \<noteq> None" and "setHours h (Some t) 0 0 0 0 \<noteq> None"
  shows "isFuture h now (Some t) \<longleftrightarrow> local_midnight h now < local_midnight h t"
  using assms
  by (simp add: isFuture_def Let_def setHours_midnight TimeClip_def Date_less_def split: if_splits)

text \<open>
  A classifier depends on its clock reading through the local day of the reading only.
\<close>

lemma classifiers_same_day:
  assumes "Day (LocalTime h a) = Day (LocalTime h b)"
  shows "isToday h a d = isToday h b d" "isPast h a d = isPast h b d"
        "isFuture h a d = isFuture h b d"
proof -
  show "isToday h a d = isToday h b d"
  proof (cases d)
    case None
    then show ?thesis by (simp add: isToday_def toDateString_def Let_def)
  next
    case (Some t)
    then show ?thesis using assms by (simp add: isToday_iff)
  qed
  have m: "setHours h (Some a) 0 0 0 0 = setHours h (Some b) 0 0 0 0"
    using local_midnight_Day [OF assms] by (simp add: setHours_midnight)
  show "isPast h a d = isPast h b d" by (simp add: isPast_def m)
  show "isFuture h a d = isFuture h b d" by (simp add: isFuture_def m)
qed

text \<open>
  Where later local days begin later, the order of two local midnights is the order of the
  two local days.
\<close>

lemma midnight_less_iff:
  assumes "\<forall>a b. Day (LocalTime h a) < Day (LocalTime h b) \<longrightarrow> local_midnight h a < local_midnight h b"
  shows "local_midnight h t < local_midnight h now \<longleftrightarrow> Day (LocalTime h t) < Day (LocalTime h now)"
proof
  assume "Day (LocalTime h t) < Day (LocalTime h now)"
  then show "local_midnight h t < local_midnight h now" using assms by blast
next
  assume l: "local_midnight h t < local_midnight h now"
  show "Day (LocalTime h t) < Day (LocalTime h now)"
  proof (rule ccontr)
    assume "\<not> Day (LocalTime h t) < Day (LocalTime h now)"
    then consider "Day (LocalTime h t) = Day (LocalTime h now)"
      | "Day (LocalTime h now) < Day (LocalTime h t)"
      by linarith
    then show False
    proof cases
      case 1
      then show False using local_midnight_Day [of h t now] l by simp
    next
      case 2
      then have "local_midnight h now < local_midnight h t" using assms by blast
      then show False using l by simp
    qed
  qed
qed

text \<open>
  Later local days begin later in every zone whose offsets for local times differ by less
  than a day.
\<close>

lemma later_day_later_midnight:
  assumes "\<forall>x y. \<bar>LocalTZA h x False - LocalTZA h y False\<bar> < msPerDay"
    and "Day (LocalTime h a) < Day (LocalTime h b)"
  shows "local_midnight h a < local_midnight h b"
proof -
  define p where "p = Day (LocalTime h a)"
  define q where "q = Day (LocalTime h b)"
  have "p + 1 \<le> q" using assms(2) by (simp add: p_def q_def)
  then have "(p + 1) * msPerDay \<le> q * msPerDay"
    by (simp add: msPerDay_def)
  then have s: "p * msPerDay + msPerDay \<le> q * msPerDay"
    by (simp add: algebra_simps)
  have "\<bar>LocalTZA h (q * msPerDay) False - LocalTZA h (p * msPerDay) False\<bar> < msPerDay"
    using assms(1) by blast
  then show ?thesis
    unfolding local_midnight_eq p_def [symmetric] q_def [symmetric] using s by linarith
qed

lemma classifier_exactly_one:
  assumes "\<forall>a b. Day (LocalTime h a) < Day (LocalTime h b) \<longrightarrow> local_midnight h a < local_midnight h b"
    and "setHours h (Some now) 0 0 0 0 \<noteq> None" and "setHours h (Some t) 0 0 0 0 \<noteq> None"
  shows "exactly_one (isToday h now (Some t)) (isPast h now (Some t)) (isFuture h now (Some t))"
proof -
  have p: "isPast h now (Some t) \<longleftrightarrow> Day (LocalTime h t) < Day (LocalTime h now)"
    using isPast_iff [OF assms(2,3)] midnight_less_iff [OF assms(1)] by simp
  have f: "isFuture h now (Some t) \<longleftrightarrow> Day (LocalTime h now) < Day (LocalTime h t)"
    using isFuture_iff [OF assms(2,3)] midnight_less_iff [OF assms(1)] by simp
  show ?thesis
    unfolding exactly_one_def isToday_iff p f by linarith
qed

text \<open>
  A record whose flags were read at three readings of the clock that fall on one local day.
\<close>

lemma record_exactly_one:
  assumes "\<forall>a b. Day (LocalTime h a) < Day (LocalTime h b) \<longrightarrow> local_midnight h a < local_midnight h b"
    and "flags_read h clk k d" and "isValidDate (date d)" and "same_local_day h clk k"
    and "setHours h (Some (clk k)) 0 0 0 0 \<noteq> None" and "setHours h (date d) 0 0 0 0 \<noteq> None"
  shows "exactly_one (isToday_flag d) (isPast_flag d) (isFuture_flag d)"
proof -
  from assms(3) obtain t where t: "date d = Some t" by (auto simp: isValidDate_def)
  have p: "isPast h (clk (k + 1)) (date d) = isPast h (clk k) (date d)"
    using assms(4) by (intro classifiers_same_day) (simp add: same_local_day_def)
  have f: "isFuture h (clk (k + 2)) (date d) = isFuture h (clk k) (date d)"
    using assms(4) by (intro classifiers_same_day) (simp add: same_local_day_def)
  have r: "isToday_flag d = isToday h (clk k) (Some t)"
    "isPast_flag d = isPast h (clk k) (Some t)" "isFuture_flag d = isFuture h (clk k) (Some t)"
    using assms(2) p f unfolding flags_read_def t by blast+
  have "setHours h (Some t) 0 0 0 0 \<noteq> None" using assms(6) by (simp add: t)
  from classifier_exactly_one [OF assms(1,5) this] show ?thesis
    unfolding r .
qed

lemma flags_read_new_day: "flags_read h clk k (new_day h clk k d i)"
  by (simp add: flags_read_def new_day_def)

lemma generate_loop_flags:
  assumes "k = 1 + 3 * length acc"
    and "\<forall>j<length acc. isValidDate (date (acc ! j)) \<and> flags_read h clk (1 + 3 * j) (acc ! j)"
  shows "\<forall>j<length (generate_loop h clk numDays i k acc).
           isValidDate (date (generate_loop h clk numDays i k acc ! j)) \<and>
           flags_read h clk (1 + 3 * j) (generate_loop h clk numDays i k acc ! j)"
  using assms
proof (induction h clk numDays i k acc rule: generate_loop.induct)
  case (1 h clk numDays i k acc)
  show ?case
  proof (cases "of_nat i < numDays")
    case False
    then have "generate_loop h clk numDays i k acc = acc"
      by (subst generate_loop.simps) simp
    then show ?thesis using "1.prems" by simp
  next
    case True
    let ?date = "setDate h (Some (clk 0)) (map_option (\<lambda>d. d + int i) (getDate h (Some (clk 0))))"
    show ?thesis
    proof (cases "isValidDate ?date")
      case False
      then have e: "generate_loop h clk numDays i k acc = generate_loop h clk numDays (Suc i) k acc"
        using True by (subst generate_loop.simps) (simp add: Let_def del: generate_loop.simps)
      show ?thesis
        unfolding e using "1.IH"(1) [OF True refl refl _ "1.prems"] False by simp
    next
      case valid: True
      let ?acc = "acc @ [new_day h clk k ?date i]"
      have e: "generate_loop h clk numDays i k acc = generate_loop h clk numDays (Suc i) (k + 3) ?acc"
        using True valid by (subst generate_loop.simps) (simp add: Let_def del: generate_loop.simps)
      have k3: "k + 3 = 1 + 3 * length ?acc"
        using "1.prems"(1) by simp
      have acc: "\<forall>j<length ?acc. isValidDate (date (?acc ! j)) \<and> flags_read h clk (1 + 3 * j) (?acc ! j)"
      proof (intro allI impI)
        fix j assume "j < length ?acc"
        then consider "j < length acc" | "j = length acc" by fastforce
        then show "isValidDate (date (?acc ! j)) \<and> flags_read h clk (1 + 3 * j) (?acc ! j)"
        proof cases
          case 1
          then show ?thesis using "1.prems"(2) by (simp add: nth_append)
        next
          case 2
          have "flags_read h clk k (new_day h clk k ?date i)" by (rule flags_read_new_day)
          moreover have "date (new_day h clk k ?date i) = ?date" by (simp add: new_day_def)
          ultimately show ?thesis using 2 valid "1.prems"(1) by (simp add: nth_append)
        qed
      qed
      show ?thesis
        unfolding e using "1.IH"(2) [OF True refl refl _ k3 acc] valid by simp
    qed
  qed
qed

lemma generated_flags:
  assumes "j < length (generateSankalpDays h clk numDays)"
  shows "isValidDate (date (generateSankalpDays h clk numDays ! j)) \<and>
         flags_read h clk (1 + 3 * j) (generateSankalpDays h clk numDays ! j)"
  using generate_loop_flags [of 1 "[]" h clk numDays 0] assms
  by (simp add: generateSankalpDays_def)

lemma reconstructDay_flags:
  assumes "reconstructDay h clk k x = Inr (Some d)"
  shows "isValidDate (date d) \<and> flags_read h clk k d"
  using assms by (auto simp: reconstructDay_def flags_read_def split: sum.splits if_splits)

lemma reconstructDays_flags:
  assumes "reconstructDays h clk k xs = Inr ds"
  shows "\<forall>j<length ds. isValidDate (date (ds ! j)) \<and> flags_read h clk (k + 3 * j) (ds ! j)"
  using assms
proof (induction xs arbitrary: k ds)
  case Nil
  then show ?case by simp
next
  case (Cons x xs)
  from Cons.prems obtain r rs where r: "reconstructDay h clk k x = Inr r"
    and rs: "reconstructDays h clk (case r of None \<Rightarrow> k | Some d \<Rightarrow> k + 3) xs = Inr rs"
    and ds: "ds = (case r of None \<Rightarrow> rs | Some d \<Rightarrow> d # rs)"
    by (auto split: sum.splits)
  show ?case
  proof (cases r)
    case None
    then show ?thesis using Cons.IH [of k rs] rs ds by simp
  next
    case (Some d)
    have ih: "\<forall>j<length rs. isValidDate (date (rs ! j)) \<and> flags_read h clk (k + 3 + 3 * j) (rs ! j)"
      using Cons.IH [of "k + 3" rs] rs Some by simp
    have d: "isValidDate (date d) \<and> flags_read h clk k d"
      using reconstructDay_flags r Some by blast
    show ?thesis
    proof (intro allI impI)
      fix j assume j: "j < length ds"
      show "isValidDate (date (ds ! j)) \<and> flags_read h clk (k + 3 * j) (ds ! j)"
      proof (cases j)
        case 0
        then show ?thesis using d ds Some by simp
      next
        case (Suc m)
        then have "m < length rs" using j ds Some by simp
        then have "isValidDate (date (rs ! m)) \<and> flags_read h clk (k + 3 + 3 * m) (rs ! m)"
          using ih by blast
        moreover have "k + 3 + 3 * m = k + 3 * j" using Suc by simp
        ultimately show ?thesis using ds Some Suc by simp
      qed
    qed
  qed
qed

text \<open>
  Claim C4, as amended.  Take a host in whose zone a later local day begins later (every
  zone whose offsets differ by less than a day: \<open>later_day_later_midnight\<close>), a clock reading
  and a date whose local midnights are time values, so that \<^verbatim>\<open>setHours(0, 0, 0, 0)\<close> keeps
  them valid.  Then \<^verbatim>\<open>isToday\<close> holds exactly when the date falls on the local day of the
  reading, \<^verbatim>\<open>isPast\<close> exactly when the local midnight of the date strictly precedes that of
  the reading, which is when its local day is earlier, \<^verbatim>\<open>isFuture\<close> exactly when it
  strictly follows, which is when its local day is later, and exactly one of the three
  holds.

  The three flags of the record at index \<open>i\<close> that \<^verbatim>\<open>generateSankalpDays\<close> returns are the
  answers of the three classifiers for the record's date, each at its own reading of the
  clock (the readings \<open>3 i + 1\<close>, \<open>3 i + 2\<close> and \<open>3 i + 3\<close> of the call); so are the flags of
  the record at index \<open>i\<close> that the loader rebuilds (the readings \<open>3 i\<close>, \<open>3 i + 1\<close> and
  \<open>3 i + 2\<close>), whatever flags were stored.  Exactly one flag of the record holds when its
  three readings fall on one local day and the local midnights are time values.
\<close>

theorem temporal_flags_exactly_one:
  assumes "\<forall>a b. Day (LocalTime h a) < Day (LocalTime h b) \<longrightarrow> local_midnight h a < local_midnight h b"
  shows "(\<forall>now t. setHours h (Some now) 0 0 0 0 \<noteq> None \<and> setHours h (Some t) 0 0 0 0 \<noteq> None \<longrightarrow>
            (isToday h now (Some t) \<longleftrightarrow> Day (LocalTime h t) = Day (LocalTime h now)) \<and>
            (isPast h now (Some t) \<longleftrightarrow> local_midnight h t < local_midnight h now) \<and>
            (isPast h now (Some t) \<longleftrightarrow> Day (LocalTime h t) < Day (LocalTime h now)) \<and>
            (isFuture h now (Some t) \<longleftrightarrow> local_midnight h now < local_midnight h t) \<and>
            (isFuture h now (Some t) \<longleftrightarrow> Day (LocalTime h now) < Day (LocalTime h t)) \<and>
            exactly_one (isToday h now (Some t)) (isPast h now (Some t)) (isFuture h now (Some t))) \<and>
         (\<forall>clk numDays i. i < length (generateSankalpDays h clk numDays) \<longrightarrow>
            flags_read h clk (3 * i + 1) (generateSankalpDays h clk numDays ! i) \<and>
            (same_local_day h clk (3 * i + 1) \<and>
             setHours h (Some (clk (3 * i + 1))) 0 0 0 0 \<noteq> None \<and>
             setHours h (date (generateSankalpDays h clk numDays ! i)) 0 0 0 0 \<noteq> None \<longrightarrow>
               exactly_one (isToday_flag (generateSankalpDays h clk numDays ! i))
                           (isPast_flag (generateSankalpDays h clk numDays ! i))
                           (isFuture_flag (generateSankalpDays h clk numDays ! i)))) \<and>
         (\<forall>clk xs ds i. reconstructDays h clk 0 xs = Inr ds \<and> i < length ds \<longrightarrow>
            flags_read h clk (3 * i) (ds ! i) \<and>
            (same_local_day h clk (3 * i) \<and>
             setHours h (Some (clk (3 * i))) 0 0 0 0 \<noteq> None \<and>
             setHours h (date (ds ! i)) 0 0 0 0 \<noteq> None \<longrightarrow>
               exactly_one (isToday_flag (ds ! i)) (isPast_flag (ds ! i)) (isFuture_flag (ds ! i))))"
proof -
  have a: "\<forall>now t. setHours h (Some now) 0 0 0 0 \<noteq> None \<and> setHours h (Some t) 0 0 0 0 \<noteq> None \<longrightarrow>
            (isToday h now (Some t) \<longleftrightarrow> Day (LocalTime h t) = Day (LocalTime h now)) \<and>
            (isPast h now (Some t) \<longleftrightarrow> local_midnight h t < local_midnight h now) \<and>
            (isPast h now (Some t) \<longleftrightarrow> Day (LocalTime h t) < Day (LocalTime h now)) \<and>
            (isFuture h now (Some t) \<longleftrightarrow> local_midnight h now < local_midnight h t) \<and>
            (isFuture h now (Some t) \<longleftrightarrow> Day (LocalTime h now) < Day (LocalTime h t)) \<and>
            exactly_one (isToday h now (Some t)) (isPast h now (Some t)) (isFuture h now (Some t))"
  proof (intro allI impI)
    fix now t
    assume m: "setHours h (Some now) 0 0 0 0 \<noteq> None \<and> setHours h (Some t) 0 0 0 0 \<noteq> None"
    then have n: "setHours h (Some now) 0 0 0 0 \<noteq> None" and d: "setHours h (Some t) 0 0 0 0 \<noteq> None"
      by simp_all
    have p: "isPast h now (Some t) \<longleftrightarrow> local_midnight h t < local_midnight h now"
      by (rule isPast_iff [OF n d])
    have f: "isFuture h now (Some t) \<longleftrightarrow> local_midnight h now < local_midnight h t"
      by (rule isFuture_iff [OF n d])
    have p': "isPast h now (Some t) \<longleftrightarrow> Day (LocalTime h t) < Day (LocalTime h now)"
      using p midnight_less_iff [OF assms] by simp
    have f': "isFuture h now (Some t) \<longleftrightarrow> Day (LocalTime h now) < Day (LocalTime h t)"
      using f midnight_less_iff [OF assms] by simp
    have e: "exactly_one (isToday h now (Some t)) (isPast h now (Some t)) (isFuture h now (Some t))"
      by (rule classifier_exactly_one [OF assms n d])
    from p f p' f' e isToday_iff [of h now t]
    show "(isToday h now (Some t) \<longleftrightarrow> Day (LocalTime h t) = Day (LocalTime h now)) \<and>
            (isPast h now (Some t) \<longleftrightarrow> local_midnight h t < local_midnight h now) \<and>
            (isPast h now (Some t) \<longleftrightarrow> Day (LocalTime h t) < Day (LocalTime h now)) \<and>
            (isFuture h now (Some t) \<longleftrightarrow> local_midnight h now < local_midnight h t) \<and>
            (isFuture h now (Some t) \<longleftrightarrow> Day (LocalTime h now) < Day (LocalTime h t)) \<and>
            exactly_one (isToday h now (Some t)) (isPast h now (Some t)) (isFuture h now (Some t))"
      by blast
  qed
  have b: "\<forall>clk numDays i. i < length (generateSankalpDays h clk numDays) \<longrightarrow>
            flags_read h clk (3 * i + 1) (generateSankalpDays h clk numDays ! i) \<and>
            (same_local_day h clk (3 * i + 1) \<and>
             setHours h (Some (clk (3 * i + 1))) 0 0 0 0 \<noteq> None \<and>
             setHours h (date (generateSankalpDays h clk numDays ! i)) 0 0 0 0 \<noteq> None \<longrightarrow>
               exactly_one (isToday_flag (generateSankalpDays h clk numDays ! i))
                           (isPast_flag (generateSankalpDays h clk numDays ! i))
                           (isFuture_flag (generateSankalpDays h clk numDays ! i)))"
  proof (intro allI impI)
    fix clk numDays i
    assume "i < length (generateSankalpDays h clk numDays)"
    from generated_flags [OF this]
    have v: "isValidDate (date (generateSankalpDays h clk numDays ! i))"
      and r: "flags_read h clk (3 * i + 1) (generateSankalpDays h clk numDays ! i)"
      by (simp_all add: add.commute)
    show "flags_read h clk (3 * i + 1) (generateSankalpDays h clk numDays ! i) \<and>
            (same_local_day h clk (3 * i + 1) \<and>
             setHours h (Some (clk (3 * i + 1))) 0 0 0 0 \<noteq> None \<and>
             setHours h (date (generateSankalpDays h clk numDays ! i)) 0 0 0 0 \<noteq> None \<longrightarrow>
               exactly_one (isToday_flag (generateSankalpDays h clk numDays ! i))
                           (isPast_flag (generateSankalpDays h clk numDays ! i))
                           (isFuture_flag (generateSankalpDays h clk numDays ! i)))"
      using r record_exactly_one [OF assms r v] by blast
  qed
  have c: "\<forall>clk xs ds i. reconstructDays h clk 0 xs = Inr ds \<and> i < length ds \<longrightarrow>
            flags_read h clk (3 * i) (ds ! i) \<and>
            (same_local_day h clk (3 * i) \<and>
             setHours h (Some (clk (3 * i))) 0 0 0 0 \<noteq> None \<and>
             setHours h (date (ds ! i)) 0 0 0 0 \<noteq> None \<longrightarrow>
               exactly_one (isToday_flag (ds ! i)) (isPast_flag (ds ! i)) (isFuture_flag (ds ! i)))"
  proof (intro allI impI)
    fix clk xs ds i
    assume "reconstructDays h clk 0 xs = Inr ds \<and> i < length ds"
    then have "isValidDate (date (ds ! i)) \<and> flags_read h clk (0 + 3 * i) (ds ! i)"
      using reconstructDays_flags [of h clk 0 xs ds] by blast
    then have v: "isValidDate (date (ds ! i))" and r: "flags_read h clk (3 * i) (ds ! i)"
      by simp_all
    show "flags_read h clk (3 * i) (ds ! i) \<and>
            (same_local_day h clk (3 * i) \<and>
             setHours h (Some (clk (3 * i))) 0 0 0 0 \<noteq> None \<and>
             setHours h (date (ds ! i)) 0 0 0 0 \<noteq> None \<longrightarrow>
               exactly_one (isToday_flag (ds ! i)) (isPast_flag (ds ! i)) (isFuture_flag (ds ! i)))"
      using r record_exactly_one [OF assms r v] by blast
  qed
  from a b c show ?thesis by blast
qed

text \<open>The example host: its local days, its local midnights and the ledgers it generates.\<close>

lemma example_zone:
  "Day (LocalTime example_host a) < Day (LocalTime example_host b) \<longrightarrow>
   local_midnight example_host a < local_midnight example_host b"
proof -
  have "\<forall>x y. \<bar>LocalTZA example_host x False - LocalTZA example_host y False\<bar> < msPerDay"
    by (simp add: example_host_def msPerDay_def)
  then show ?thesis using later_day_later_midnight by blast
qed

lemma example_Day: "Day (LocalTime example_host t) = (t + 19800000) div 86400000"
  by (simp add: LocalTime_def example_host_def Day_def msPerDay_def)

lemma example_local_midnight:
  "local_midnight example_host t = (t + 19800000) div 86400000 * 86400000 - 19800000"
  by (simp add: local_midnight_eq example_Day) (simp add: example_host_def msPerDay_def)

lemma example_midnights:
  "setHours example_host (Some example_now) 0 0 0 0 = Some 1793557800000"
  "setHours example_host (Some 1793527500000) 0 0 0 0 = Some 1793471400000"
  "setHours example_host (Some 1793613900000) 0 0 0 0 = Some 1793557800000"
  "setHours example_host (Some 1793700300000) 0 0 0 0 = Some 1793644200000"
  "setHours example_host (Some 1793786700000) 0 0 0 0 = Some 1793730600000"
  by (simp_all add: setHours_midnight TimeClip_def example_local_midnight maxTime_def example_now_def)

lemma example_days_later: "days_later example_host t i = t + int i * msPerDay"
  by (rule days_later_fixed [of example_host 19800000]) (simp add: example_host_def)

lemma example_generate:
  assumes "n \<le> 365"
  shows "generateSankalpDays example_host example_clock (of_nat n)
         = map (\<lambda>j. new_day example_host example_clock (1 + 3 * j)
                       (Some (example_now + int j * msPerDay)) j) [0..<n]"
proof -
  have c: "example_clock 0 = example_now" by (simp add: example_clock_def)
  have "\<forall>j<n. \<bar>days_later example_host (example_clock 0) j\<bar> \<le> maxTime"
  proof (intro allI impI)
    fix j assume "j < n"
    then have "int j \<le> 364" using assms by simp
    then have "int j * msPerDay \<le> 364 * msPerDay" by (simp add: msPerDay_def)
    moreover have "0 \<le> int j * msPerDay" by (simp add: msPerDay_def)
    ultimately show "\<bar>days_later example_host (example_clock 0) j\<bar> \<le> maxTime"
      unfolding example_days_later c by (simp add: example_now_def maxTime_def msPerDay_def)
  qed
  from generateSankalpDays_eq [where h = example_host and clk = example_clock and n = n, OF this]
  show ?thesis
    unfolding example_days_later c .
qed

lemma example_reconstructDay:
  "reconstructDay example_host clk k example_entry
   = Inr (Some \<lparr>date = Some 1793700300000, day = JNum 3,
           isToday_flag = isToday example_host (clk k) (Some 1793700300000),
           isPast_flag = isPast example_host (clk (k + 1)) (Some 1793700300000),
           isFuture_flag = isFuture example_host (clk (k + 2)) (Some 1793700300000),
           dateString = JStr ''3/11/2026'', dayName = JStr ''Tuesday''\<rparr>)"
  by (simp add: reconstructDay_def example_entry_def example_host_def example_parse_def
      TimeClip_def maxTime_def isValidDate_def field_of_def)

lemma example_reconstructDays:
  "reconstructDays example_host clk k [example_entry]
   = Inr [\<lparr>date = Some 1793700300000, day = JNum 3,
           isToday_flag = isToday example_host (clk k) (Some 1793700300000),
           isPast_flag = isPast example_host (clk (k + 1)) (Some 1793700300000),
           isFuture_flag = isFuture example_host (clk (k + 2)) (Some 1793700300000),
           dateString = JStr ''3/11/2026'', dayName = JStr ''Tuesday''\<rparr>]"
  by (simp add: example_reconstructDay)

text \<open>
  Claim C4 as stated fails in two ways.  At the first moment of the range of time values
  the date is valid, its local midnight in a zone east of UTC lies before the range,
  \<^verbatim>\<open>setHours\<close> turns it into an invalid date, and all three classifications are false.  And
  each classifier reads the clock for itself: in a one-day ledger started in the last
  millisecond of a local day, with the local midnight passing between the call of
  \<^verbatim>\<open>isToday\<close> and the call of \<^verbatim>\<open>isPast\<close>, the record of day 1 is flagged both today and past.
\<close>

theorem temporal_flags_counterexample:
  "isValidDate (Some (- 8640000000000000)) \<and>
   \<not> isToday example_host example_now (Some (- 8640000000000000)) \<and>
   \<not> isPast example_host example_now (Some (- 8640000000000000)) \<and>
   \<not> isFuture example_host example_now (Some (- 8640000000000000)) \<and>
   length (generateSankalpDays example_host midnight_clock 1) = 1 \<and>
   isToday_flag (generateSankalpDays example_host midnight_clock 1 ! 0) \<and>
   isPast_flag (generateSankalpDays example_host midnight_clock 1 ! 0)"
proof -
  have m: "setHours example_host (Some (- 8640000000000000)) 0 0 0 0 = None"
    by (simp add: setHours_midnight TimeClip_def example_local_midnight maxTime_def)
  have "Day (LocalTime example_host (- 8640000000000000)) \<noteq> Day (LocalTime example_host example_now)"
    by (simp add: example_Day example_now_def)
  then have t: "\<not> isToday example_host example_now (Some (- 8640000000000000))"
    by (simp add: isToday_iff)
  have a: "isValidDate (Some (- 8640000000000000)) \<and>
   \<not> isToday example_host example_now (Some (- 8640000000000000)) \<and>
   \<not> isPast example_host example_now (Some (- 8640000000000000)) \<and>
   \<not> isFuture example_host example_now (Some (- 8640000000000000))"
    using t by (simp add: isValidDate_def isPast_def isFuture_def m Date_less_def Let_def split: option.split)
  have "\<forall>j<1. \<bar>days_later example_host (midnight_clock 0) j\<bar> \<le> maxTime"
    by (simp add: example_days_later midnight_clock_def maxTime_def)
  from generateSankalpDays_eq [where h = example_host and clk = midnight_clock and n = 1, OF this]
  have g: "generateSankalpDays example_host midnight_clock 1
           = [new_day example_host midnight_clock 1 (Some 1793644199999) 0]"
    by (simp add: example_days_later midnight_clock_def)
  have td: "isToday example_host (midnight_clock 1) (Some 1793644199999)"
    by (simp add: isToday_iff midnight_clock_def)
  have n: "setHours example_host (Some (midnight_clock (1 + 1))) 0 0 0 0 = Some 1793644200000"
    and d: "setHours example_host (Some 1793644199999) 0 0 0 0 = Some 1793557800000"
    by (simp_all add: setHours_midnight TimeClip_def example_local_midnight maxTime_def
        midnight_clock_def)
  have pd: "isPast example_host (midnight_clock (1 + 1)) (Some 1793644199999)"
    unfolding isPast_def Let_def n d by (simp add: Date_less_def)
  have b: "length (generateSankalpDays example_host midnight_clock 1) = 1 \<and>
           isToday_flag (generateSankalpDays example_host midnight_clock 1 ! 0) \<and>
           isPast_flag (generateSankalpDays example_host midnight_clock 1 ! 0)"
    unfolding g new_day_def using td pd by simp
  from a b show ?thesis by blast
qed

theorem temporal_flags_exactly_one_witness:
  "isFuture example_host example_now (Some 1793700300000) \<and>
   \<not> isPast example_host example_now (Some 1793700300000) \<and>
   \<not> isToday example_host example_now (Some 1793700300000) \<and>
   isPast example_host example_now (Some 1793527500000) \<and>
   \<not> isFuture example_host example_now (Some 1793527500000) \<and>
   \<not> isToday example_host example_now (Some 1793527500000) \<and>
   exactly_one (isToday example_host example_now (Some 1793700300000))
               (isPast example_host example_now (Some 1793700300000))
               (isFuture example_host example_now (Some 1793700300000)) \<and>
   flags_read example_host example_clock 7 (generateSankalpDays example_host example_clock 3 ! 2) \<and>
   exactly_one (isToday_flag (generateSankalpDays example_host example_clock 3 ! 2))
               (isPast_flag (generateSankalpDays example_host example_clock 3 ! 2))
               (isFuture_flag (generateSankalpDays example_host example_clock 3 ! 2)) \<and>
   (case reconstructDays example_host example_clock 0 [example_entry] of
      Inl e \<Rightarrow> False
    | Inr ds \<Rightarrow> exactly_one (isToday_flag (ds ! 0)) (isPast_flag (ds ! 0)) (isFuture_flag (ds ! 0)) \<and>
                flags_read example_host example_clock 0 (ds ! 0))"
proof -
  have z: "\<forall>a b. Day (LocalTime example_host a) < Day (LocalTime example_host b) \<longrightarrow>
             local_midnight example_host a < local_midnight example_host b"
    using example_zone by blast
  note tf = temporal_flags_exactly_one [OF z]
  have n: "setHours example_host (Some example_now) 0 0 0 0 \<noteq> None"
    and t: "setHours example_host (Some 1793700300000) 0 0 0 0 \<noteq> None"
    and u: "setHours example_host (Some 1793527500000) 0 0 0 0 \<noteq> None"
    by (simp_all add: example_midnights)
  have lt: "Day (LocalTime example_host example_now) < Day (LocalTime example_host 1793700300000)"
    and lu: "Day (LocalTime example_host 1793527500000) < Day (LocalTime example_host example_now)"
    by (simp_all add: example_Day example_now_def)
  from tf n t lt
  have a: "isFuture example_host example_now (Some 1793700300000) \<and>
           \<not> isPast example_host example_now (Some 1793700300000) \<and>
           \<not> isToday example_host example_now (Some 1793700300000) \<and>
           exactly_one (isToday example_host example_now (Some 1793700300000))
               (isPast example_host example_now (Some 1793700300000))
               (isFuture example_host example_now (Some 1793700300000))"
    by (metis less_irrefl less_asym)
  from tf n u lu
  have b: "isPast example_host example_now (Some 1793527500000) \<and>
           \<not> isFuture example_host example_now (Some 1793527500000) \<and>
           \<not> isToday example_host example_now (Some 1793527500000)"
    by (metis less_irrefl less_asym)
  have g: "generateSankalpDays example_host example_clock (of_nat 3)
           = map (\<lambda>j. new_day example_host example_clock (1 + 3 * j)
                         (Some (example_now + int j * msPerDay)) j) [0..<3]"
    by (rule example_generate) simp
  have len: "2 < length (generateSankalpDays example_host example_clock 3)"
    using g by simp
  have dt: "date (generateSankalpDays example_host example_clock 3 ! 2) = Some 1793786700000"
    using g by (simp add: new_day_def example_now_def msPerDay_def)
  have s7: "same_local_day example_host example_clock (3 * 2 + 1)"
    by (simp add: same_local_day_def example_Day example_clock_def example_now_def)
  have m7: "setHours example_host (Some (example_clock (3 * 2 + 1))) 0 0 0 0 \<noteq> None"
    by (simp add: setHours_midnight TimeClip_def example_local_midnight maxTime_def
        example_clock_def example_now_def)
  have md: "setHours example_host (date (generateSankalpDays example_host example_clock 3 ! 2)) 0 0 0 0
            \<noteq> None"
    by (simp add: dt example_midnights)
  from tf [THEN conjunct2, THEN conjunct1, rule_format, OF len] s7 m7 md
  have c: "flags_read example_host example_clock (3 * 2 + 1)
             (generateSankalpDays example_host example_clock 3 ! 2) \<and>
           exactly_one (isToday_flag (generateSankalpDays example_host example_clock 3 ! 2))
               (isPast_flag (generateSankalpDays example_host example_clock 3 ! 2))
               (isFuture_flag (generateSankalpDays example_host example_clock 3 ! 2))"
    by blast
  then have c': "flags_read example_host example_clock 7
             (generateSankalpDays example_host example_clock 3 ! 2) \<and>
           exactly_one (isToday_flag (generateSankalpDays example_host example_clock 3 ! 2))
               (isPast_flag (generateSankalpDays example_host example_clock 3 ! 2))
               (isFuture_flag (generateSankalpDays example_host example_clock 3 ! 2))"
    by simp
  let ?d = "\<lparr>date = Some 1793700300000, day = JNum 3,
           isToday_flag = isToday example_host (example_clock 0) (Some 1793700300000),
           isPast_flag = isPast example_host (example_clock (0 + 1)) (Some 1793700300000),
           isFuture_flag = isFuture example_host (example_clock (0 + 2)) (Some 1793700300000),
           dateString = JStr ''3/11/2026'', dayName = JStr ''Tuesday''\<rparr>"
  have r: "reconstructDays example_host example_clock 0 [example_entry] = Inr [?d] \<and> 0 < length [?d]"
    using example_reconstructDays [of example_clock 0] by (simp del: reconstructDays.simps)
  have s0: "same_local_day example_host example_clock (3 * 0)"
    by (simp add: same_local_day_def example_Day example_clock_def example_now_def)
  have m0: "setHours example_host (Some (example_clock (3 * 0))) 0 0 0 0 \<noteq> None"
    by (simp add: example_clock_def example_midnights)
  have m1: "setHours example_host (date ([?d] ! 0)) 0 0 0 0 \<noteq> None"
    by (simp add: example_midnights)
  from tf [THEN conjunct2, THEN conjunct2, rule_format, OF r] s0 m0 m1
  have "flags_read example_host example_clock (3 * 0) ([?d] ! 0) \<and>
        exactly_one (isToday_flag ([?d] ! 0)) (isPast_flag ([?d] ! 0)) (isFuture_flag ([?d] ! 0))"
    by blast
  then have e: "(case reconstructDays example_host example_clock 0 [example_entry] of
      Inl e \<Rightarrow> False
    | Inr ds \<Rightarrow> exactly_one (isToday_flag (ds ! 0)) (isPast_flag (ds ! 0)) (isFuture_flag (ds ! 0)) \<and>
                flags_read example_host example_clock 0 (ds ! 0))"
    unfolding example_reconstructDays by simp
  from a b c' e show ?thesis
    by blast
qed

subsection \<open>Input validation and start\<close>




lemma startSankalp_rejected:
  assumes "validateDaysInput (days s) \<noteq> []"
  shows "startSankalp h clk s = s\<lparr>validationErrors := validateDaysInput (days s)\<rparr>"
  using assms by (simp add: startSankalp_def Let_def)




subsection \<open>Loading a stored record\<close>

lemma set_foldl_Set_add: "set (foldl Set_add acc xs) = set acc \<union> set xs"
  by (induction xs arbitrary: acc) (auto simp: set_Set_add)

lemma distinct_foldl_Set_add: "distinct acc \<Longrightarrow> distinct (foldl Set_add acc xs)"
  by (induction xs arbitrary: acc) (auto simp: Set_add_def)

lemma set_new_Set: "set (new_Set xs) = set xs"
  by (simp add: new_Set_def set_foldl_Set_add)

lemma distinct_new_Set: "distinct (new_Set xs)"
  by (simp add: new_Set_def distinct_foldl_Set_add)

lemma new_Set_distinct: "distinct xs \<Longrightarrow> new_Set xs = xs"
proof -
  have "distinct (acc @ xs) \<Longrightarrow> foldl Set_add acc xs = acc @ xs" for acc
    by (induction xs arbitrary: acc) (auto simp: Set_add_def)
  from this [of "[]"] show "distinct xs \<Longrightarrow> new_Set xs = xs"
    by (simp add: new_Set_def)
qed

lemma set_numbers_filter:
  "set (numbers (filter (completed_ok (JNum td)) cs)) = {x. JNum x \<in> set cs \<and> 1 \<le> x \<and> x \<le> td}"
proof (induction cs)
  case Nil
  then show ?case by simp
next
  case (Cons c cs)
  then show ?case by (cases c) auto
qed

lemma load_invalid:
  "\<not> validateSankalpData data \<Longrightarrow> loadFromStorage h clk s (Some (JSON data)) = (s, None)"
  by (simp add: loadFromStorage_def)

lemma load_bad_version:
  "field_of data ''version'' \<noteq> JNum STORAGE_VERSION \<Longrightarrow>
   loadFromStorage h clk s (Some (JSON data)) = (s, None)"
  by (rule load_invalid) (simp add: validateSankalpData_def)

lemma load_count_mismatch:
  assumes "reconstructDays h clk 0 (elements (field_of data ''sankalpDays'')) = Inr ds"
    and "JNum (of_nat (length ds)) \<noteq> field_of data ''totalDays''"
  shows "loadFromStorage h clk s (Some (JSON data)) = (s, None)"
  using assms by (simp add: loadFromStorage_def split: sum.split)

lemma load_accepted:
  assumes "validateSankalpData data"
    and "new_Date h (field_of data ''startDate'') = Inr (Some t)"
    and "reconstructDays h clk 0 (elements (field_of data ''sankalpDays'')) = Inr ds"
    and "field_of data ''totalDays'' = JNum (of_nat (length ds))"
  shows "loadFromStorage h clk s (Some (JSON data))
         = (s\<lparr>sankalpStarted := ToBoolean (field_of data ''sankalpStarted''),
              completedDays := new_Set (numbers (filter (completed_ok (JNum (of_nat (length ds))))
                                                   (elements (field_of data ''completedDays'')))),
              sankalpDays := ds,
              totalDays := of_nat (length ds)\<rparr>,
            Some (JSON data))"
  using assms by (simp add: loadFromStorage_def isValidDate_def)

text \<open>
  Claim C2.  \<^verbatim>\<open>loadFromStorage\<close> leaves the state as it was (at mount: the initial,
  not-started state) and removes the stored record when the record's version is not the
  expected one, and when the number of day records it could rebuild differs from the stored
  \<open>totalDays\<close>.  When the record is accepted, the slot is kept and the completion set holds
  exactly the entries of the stored list that are numbers within \<open>[1, totalDays]\<close>: the other
  entries are dropped and do not make the load fail.
\<close>

theorem loadFromStorage_corruption:
  "(field_of data ''version'' \<noteq> JNum STORAGE_VERSION \<longrightarrow>
      loadFromStorage h clk s (Some (JSON data)) = (s, None)) \<and>
   (\<forall>ds. reconstructDays h clk 0 (elements (field_of data ''sankalpDays'')) = Inr ds \<and>
         JNum (of_nat (length ds)) \<noteq> field_of data ''totalDays'' \<longrightarrow>
      loadFromStorage h clk s (Some (JSON data)) = (s, None)) \<and>
   (\<forall>t ds cs. validateSankalpData data \<and>
         new_Date h (field_of data ''startDate'') = Inr (Some t) \<and>
         reconstructDays h clk 0 (elements (field_of data ''sankalpDays'')) = Inr ds \<and>
         field_of data ''totalDays'' = JNum (of_nat (length ds)) \<and>
         field_of data ''completedDays'' = JArr cs \<longrightarrow>
      snd (loadFromStorage h clk s (Some (JSON data))) = Some (JSON data) \<and>
      sankalpDays (fst (loadFromStorage h clk s (Some (JSON data)))) = ds \<and>
      totalDays (fst (loadFromStorage h clk s (Some (JSON data)))) = of_nat (length ds) \<and>
      set (completedDays (fst (loadFromStorage h clk s (Some (JSON data)))))
        = {x. JNum x \<in> set cs \<and> 1 \<le> x \<and> x \<le> of_nat (length ds)})"
proof (intro conjI allI impI)
  assume "field_of data ''version'' \<noteq> JNum STORAGE_VERSION"
  then show "loadFromStorage h clk s (Some (JSON data)) = (s, None)"
    by (rule load_bad_version)
next
  fix ds
  assume "reconstructDays h clk 0 (elements (field_of data ''sankalpDays'')) = Inr ds \<and>
          JNum (of_nat (length ds)) \<noteq> field_of data ''totalDays''"
  then show "loadFromStorage h clk s (Some (JSON data)) = (s, None)"
    using load_count_mismatch by blast
next
  fix t ds cs
  assume a: "validateSankalpData data \<and>
         new_Date h (field_of data ''startDate'') = Inr (Some t) \<and>
         reconstructDays h clk 0 (elements (field_of data ''sankalpDays'')) = Inr ds \<and>
         field_of data ''totalDays'' = JNum (of_nat (length ds)) \<and>
         field_of data ''completedDays'' = JArr cs"
  then have l: "loadFromStorage h clk s (Some (JSON data))
         = (s\<lparr>sankalpStarted := ToBoolean (field_of data ''sankalpStarted''),
              completedDays := new_Set (numbers (filter (completed_ok (JNum (of_nat (length ds))))
                                                   (elements (field_of data ''completedDays'')))),
              sankalpDays := ds,
              totalDays := of_nat (length ds)\<rparr>,
            Some (JSON data))"
    using load_accepted by blast
  show "snd (loadFromStorage h clk s (Some (JSON data))) = Some (JSON data)"
    by (simp add: l)
  show "sankalpDays (fst (loadFromStorage h clk s (Some (JSON data)))) = ds"
    by (simp add: l)
  show "totalDays (fst (loadFromStorage h clk s (Some (JSON data)))) = of_nat (length ds)"
    by (simp add: l)
  show "set (completedDays (fst (loadFromStorage h clk s (Some (JSON data)))))
        = {x. JNum x \<in> set cs \<and> 1 \<le> x \<and> x \<le> of_nat (length ds)}"
    using a by (simp add: l set_new_Set set_numbers_filter)
qed


lemma field_of_example_record:
  "field_of (example_record td cs ver) ''totalDays'' = td"
  "field_of (example_record td cs ver) ''completedDays'' = cs"
  "field_of (example_record td cs ver) ''sankalpDays'' = JArr [example_entry]"
  "field_of (example_record td cs ver) ''startDate'' = JStr ''2026-11-03T10:05:00.000Z''"
  "field_of (example_record td cs ver) ''sankalpStarted'' = JBool True"
  "field_of (example_record td cs ver) ''version'' = ver"
  by (simp_all add: field_of_def example_record_def)

lemma validate_example_record:
  "validateSankalpData (example_record (JNum td) (JArr cs) (JNum 1))"
  by (simp add: validateSankalpData_def field_of_example_record STORAGE_VERSION_def)
     (simp add: example_record_def)

theorem loadFromStorage_corruption_witness:
  "loadFromStorage example_host example_clock initial_state
     (Some (JSON (example_record (JNum 1) (JArr [JNum 1]) (JNum 2)))) = (initial_state, None) \<and>
   loadFromStorage example_host example_clock initial_state
     (Some (JSON (example_record (JNum 2) (JArr [JNum 1]) (JNum 1)))) = (initial_state, None) \<and>
   snd (loadFromStorage example_host example_clock initial_state
     (Some (JSON (example_record (JNum 1) (JArr [JNum 1, JStr ''2'', JNum 7, JNum 0, JNull, JNum 1]) (JNum 1)))))
     \<noteq> None \<and>
   set (completedDays (fst (loadFromStorage example_host example_clock initial_state
     (Some (JSON (example_record (JNum 1) (JArr [JNum 1, JStr ''2'', JNum 7, JNum 0, JNull, JNum 1]) (JNum 1)))))))
     = {1}"
proof -
  let ?cs = "[JNum 1, JStr ''2'', JNum 7, JNum 0, JNull, JNum 1]"
  let ?d = "\<lparr>date = Some 1793700300000, day = JNum 3,
           isToday_flag = isToday example_host (example_clock 0) (Some 1793700300000),
           isPast_flag = isPast example_host (example_clock (0 + 1)) (Some 1793700300000),
           isFuture_flag = isFuture example_host (example_clock (0 + 2)) (Some 1793700300000),
           dateString = JStr ''3/11/2026'', dayName = JStr ''Tuesday''\<rparr>"
  have a: "loadFromStorage example_host example_clock initial_state
     (Some (JSON (example_record (JNum 1) (JArr [JNum 1]) (JNum 2)))) = (initial_state, None)"
    using loadFromStorage_corruption
      [of "example_record (JNum 1) (JArr [JNum 1]) (JNum 2)" example_host example_clock initial_state]
    by (simp add: field_of_example_record STORAGE_VERSION_def)
  have r: "reconstructDays example_host example_clock 0
             (elements (field_of (example_record td cs ver) ''sankalpDays'')) = Inr [?d]" for td cs ver
    by (simp only: field_of_example_record elements.simps example_reconstructDays)
  have b: "loadFromStorage example_host example_clock initial_state
     (Some (JSON (example_record (JNum 2) (JArr [JNum 1]) (JNum 1)))) = (initial_state, None)"
    using loadFromStorage_corruption
      [of "example_record (JNum 2) (JArr [JNum 1]) (JNum 1)" example_host example_clock initial_state]
      r [of "JNum 2" "JArr [JNum 1]" "JNum 1"]
    by (simp add: field_of_example_record)
  have sd: "new_Date example_host (field_of (example_record (JNum 1) (JArr ?cs) (JNum 1)) ''startDate'')
            = Inr (Some 1793700300000)"
    by (simp add: field_of_example_record example_host_def example_parse_def TimeClip_def maxTime_def)
  have c: "snd (loadFromStorage example_host example_clock initial_state
              (Some (JSON (example_record (JNum 1) (JArr ?cs) (JNum 1)))))
             = Some (JSON (example_record (JNum 1) (JArr ?cs) (JNum 1))) \<and>
           set (completedDays (fst (loadFromStorage example_host example_clock initial_state
              (Some (JSON (example_record (JNum 1) (JArr ?cs) (JNum 1)))))))
             = {x. JNum x \<in> set ?cs \<and> 1 \<le> x \<and> x \<le> of_nat (length [?d])}"
    using loadFromStorage_corruption
      [of "example_record (JNum 1) (JArr ?cs) (JNum 1)" example_host example_clock initial_state]
      r [of "JNum 1" "JArr ?cs" "JNum 1"] sd validate_example_record [of 1 ?cs]
    by (simp add: field_of_example_record)
  have "{x. JNum x \<in> set ?cs \<and> 1 \<le> x \<and> x \<le> of_nat (length [?d])} = {1::rat}"
    by auto
  with a b c show ?thesis by simp
qed

lemma toggleDay_invariant: "ledger_invariant s \<Longrightarrow> ledger_invariant (toggleDay s n)"
  by (auto simp: ledger_invariant_def toggleDay_def Let_def Set_has_def set_Set_add set_Set_delete
      split: option.split)

lemma resetSankalp_invariant: "ledger_invariant (fst (resetSankalp s store))"
  by (simp add: ledger_invariant_def resetSankalp_def)

lemma startSankalp_invariant:
  assumes "ledger_invariant s" and "completedDays s = []"
  shows "ledger_invariant (startSankalp h clk s)"
proof (cases "validateDaysInput (days s) = []")
  case False
  then show ?thesis using assms(1) by (simp add: startSankalp_rejected ledger_invariant_def)
next
  case True
  show ?thesis
  proof (cases "parseInt (days s)")
    case None
    then show ?thesis using True assms(1) by (simp add: startSankalp_def ledger_invariant_def)
  next
    case (Some numDays)
    have "\<not> numDays < MIN_SANKALP_DAYS"
      using True Some by (auto simp: validateDaysInput_def split: if_splits)
    then have "1 \<le> numDays" by (simp add: MIN_SANKALP_DAYS_def)
    then show ?thesis
      using True Some assms by (simp add: startSankalp_def Let_def ledger_invariant_def)
  qed
qed

lemma load_leftover:
  "completedDays (fst (loadFromStorage example_host example_clock initial_state (Some (JSON leftover_record)))) = [2] \<and>
   \<not> sankalpStarted (fst (loadFromStorage example_host example_clock initial_state (Some (JSON leftover_record)))) \<and>
   days (fst (loadFromStorage example_host example_clock initial_state (Some (JSON leftover_record)))) = []"
proof -
  let ?d = "\<lparr>date = Some 1793700300000, day = JNum 3,
           isToday_flag = isToday example_host (example_clock 0) (Some 1793700300000),
           isPast_flag = isPast example_host (example_clock (0 + 1)) (Some 1793700300000),
           isFuture_flag = isFuture example_host (example_clock (0 + 2)) (Some 1793700300000),
           dateString = JStr ''3/11/2026'', dayName = JStr ''Tuesday''\<rparr>"
  let ?e = "\<lparr>date = Some 1793700300000, day = JNum 3,
           isToday_flag = isToday example_host (example_clock (0 + 3)) (Some 1793700300000),
           isPast_flag = isPast example_host (example_clock (0 + 3 + 1)) (Some 1793700300000),
           isFuture_flag = isFuture example_host (example_clock (0 + 3 + 2)) (Some 1793700300000),
           dateString = JStr ''3/11/2026'', dayName = JStr ''Tuesday''\<rparr>"
  have f: "field_of leftover_record ''totalDays'' = JNum 2"
    "field_of leftover_record ''completedDays'' = JArr [JNum 2]"
    "field_of leftover_record ''sankalpDays'' = JArr [example_entry, example_entry]"
    "field_of leftover_record ''startDate'' = JStr ''2026-11-03T10:05:00.000Z''"
    "field_of leftover_record ''sankalpStarted'' = JBool False"
    "field_of leftover_record ''version'' = JNum 1"
    by (simp_all add: field_of_def leftover_record_def)
  have v: "validateSankalpData leftover_record"
    unfolding validateSankalpData_def Let_def f by (simp add: STORAGE_VERSION_def leftover_record_def)
  have r: "reconstructDays example_host example_clock 0 (elements (field_of leftover_record ''sankalpDays''))
           = Inr [?d, ?e]"
    unfolding f elements.simps reconstructDays.simps example_reconstructDay by simp
  have sd: "new_Date example_host (field_of leftover_record ''startDate'') = Inr (Some 1793700300000)"
    unfolding f by (simp add: example_host_def example_parse_def TimeClip_def maxTime_def)
  have td: "field_of leftover_record ''totalDays'' = JNum (of_nat (length [?d, ?e]))"
    unfolding f by simp
  note l = load_accepted [OF v sd r td, of initial_state]
  show ?thesis
    unfolding l fst_conv f by (simp add: new_Set_def Set_add_def initial_state_def)
qed

text \<open>
  Claim C6.  The invariant of a started ledger asks for at least one day and for completed
  days within \<open>[1, totalDays]\<close>.  The loader checks that the number of rebuilt day records
  equals the stored \<open>totalDays\<close>, but not that the total is at least \<open>MIN_SANKALP_DAYS\<close> as
  \<^verbatim>\<open>validateDaysInput\<close> does for a start: from a stored record with no days, a total of 0 and
  the started flag set, it yields a started ledger of no days.  It also loads the completed
  days of a record that is not started, and \<^verbatim>\<open>startSankalp\<close> does not clear them: a one-day
  ledger started after such a load holds day 2 as completed.
\<close>

theorem restore_breaks_invariant:
  "sankalpStarted (fst (loadFromStorage example_host example_clock initial_state (Some (JSON corrupt_record)))) \<and>
   totalDays (fst (loadFromStorage example_host example_clock initial_state (Some (JSON corrupt_record)))) = 0 \<and>
   sankalpDays (fst (loadFromStorage example_host example_clock initial_state (Some (JSON corrupt_record)))) = [] \<and>
   \<not> sankalpStarted (fst (loadFromStorage example_host example_clock initial_state (Some (JSON leftover_record)))) \<and>
   sankalpStarted (startSankalp example_host example_clock
     ((fst (loadFromStorage example_host example_clock initial_state (Some (JSON leftover_record))))\<lparr>days := ''1''\<rparr>)) \<and>
   totalDays (startSankalp example_host example_clock
     ((fst (loadFromStorage example_host example_clock initial_state (Some (JSON leftover_record))))\<lparr>days := ''1''\<rparr>)) = 1 \<and>
   completedDays (startSankalp example_host example_clock
     ((fst (loadFromStorage example_host example_clock initial_state (Some (JSON leftover_record))))\<lparr>days := ''1''\<rparr>)) = [2]"
proof -
  have a: "sankalpStarted (fst (loadFromStorage example_host example_clock initial_state (Some (JSON corrupt_record)))) \<and>
   totalDays (fst (loadFromStorage example_host example_clock initial_state (Some (JSON corrupt_record)))) = 0 \<and>
   sankalpDays (fst (loadFromStorage example_host example_clock initial_state (Some (JSON corrupt_record)))) = []"
    by (simp add: loadFromStorage_def corrupt_record_def validateSankalpData_def field_of_def
      STORAGE_VERSION_def example_host_def example_parse_def TimeClip_def maxTime_def
      isValidDate_def)
  define s1 where "s1 = fst (loadFromStorage example_host example_clock initial_state (Some (JSON leftover_record)))"
  have l: "completedDays s1 = [2]" "\<not> sankalpStarted s1"
    using load_leftover by (simp_all add: s1_def)
  have v: "validateDaysInput ''1'' = []" "parseInt ''1'' = Some 1"
    by (simp_all add: validateDaysInput_def parseInt_def trim_def Let_def isWhiteSpace_def
        digitValue_def MIN_SANKALP_DAYS_def MAX_SANKALP_DAYS_def)
  have "generateSankalpDays example_host example_clock (of_nat 1)
        = map (\<lambda>j. new_day example_host example_clock (1 + 3 * j)
                      (Some (example_now + int j * msPerDay)) j) [0..<1]"
    by (rule example_generate) simp
  then have g: "length (generateSankalpDays example_host example_clock 1) = 1"
    by simp
  have st: "startSankalp example_host example_clock (s1\<lparr>days := ''1''\<rparr>)
            = s1\<lparr>days := ''1'', totalDays := 1,
                 sankalpDays := generateSankalpDays example_host example_clock 1,
                 sankalpStarted := True, validationErrors := []\<rparr>"
    by (simp add: startSankalp_def Let_def v g)
  show ?thesis
    using a l unfolding s1_def [symmetric] st by simp
qed

subsection \<open>Saving and loading\<close>

lemma reconstruct_savedDay:
  assumes "date d = Some t" and "\<bar>t\<bar> \<le> maxTime" and "Date_parse h (toISOString h t) = Some t"
  shows "\<exists>v. savedDay h d = Inr v \<and> reconstructDay h clk k v = Inr (Some (flags_at h clk k d))"
proof -
  let ?v = "JObj (filter (\<lambda>(k, v). v \<noteq> JUndefined)
                 [(''date'', JStr (toISOString h t)),
                  (''day'', day d),
                  (''isToday'', JBool (isToday_flag d)),
                  (''isPast'', JBool (isPast_flag d)),
                  (''isFuture'', JBool (isFuture_flag d)),
                  (''dateString'', dateString d),
                  (''dayName'', dayName d)])"
  have s: "savedDay h d = Inr ?v"
    by (simp add: savedDay_def assms(1))
  have g: "Get ?v ''date'' = Inr (JStr (toISOString h t))"
    by simp
  have f1: "field_of ?v ''day'' = day d"
    by (simp add: field_of_def)
  have f2: "field_of ?v ''dateString'' = dateString d"
    by (simp add: field_of_def)
  have f3: "field_of ?v ''dayName'' = dayName d"
    by (simp add: field_of_def)
  have n: "new_Date h (JStr (toISOString h t)) = Inr (Some t)"
    using assms(2,3) by (simp add: TimeClip_def)
  have "reconstructDay h clk k ?v = Inr (Some (flags_at h clk k d))"
    unfolding reconstructDay_def g f1 f2 f3
    by (simp add: n isValidDate_def flags_at_def assms(1) del: new_Date.simps)
  with s show ?thesis by blast
qed

lemma reconstruct_savedDays:
  assumes "\<forall>d \<in> set ds. \<exists>t. date d = Some t \<and> \<bar>t\<bar> \<le> maxTime \<and> Date_parse h (toISOString h t) = Some t"
  shows "\<exists>vs. savedDays h ds = Inr vs \<and> reconstructDays h clk k vs = Inr (refreshed h clk k ds)"
  using assms
proof (induction ds arbitrary: k)
  case Nil
  then show ?case by simp
next
  case (Cons d ds)
  then obtain t where t: "date d = Some t" "\<bar>t\<bar> \<le> maxTime" "Date_parse h (toISOString h t) = Some t"
    by auto
  from reconstruct_savedDay [OF t, of clk k] obtain v
    where v: "savedDay h d = Inr v" "reconstructDay h clk k v = Inr (Some (flags_at h clk k d))"
    by blast
  from Cons.IH [of "k + 3"] Cons.prems obtain vs
    where vs: "savedDays h ds = Inr vs"
      "reconstructDays h clk (k + 3) vs = Inr (refreshed h clk (k + 3) ds)"
    by auto
  have "savedDays h (d # ds) = Inr (v # vs)"
    by (simp add: v vs)
  moreover have "reconstructDays h clk k (v # vs) = Inr (refreshed h clk k (d # ds))"
    by (simp add: v vs)
  ultimately show ?case by blast
qed

lemma length_refreshed: "length (refreshed h clk k ds) = length ds"
  by (induction ds arbitrary: k) simp_all

lemma map_date_refreshed: "map date (refreshed h clk k ds) = map date ds"
  by (induction ds arbitrary: k) (simp_all add: flags_at_def)

lemma numbers_map_JNum: "numbers (map JNum cs) = cs"
  by (induction cs) auto

lemma numbers_filter_in_range:
  assumes "\<forall>x \<in> set cs. 1 \<le> x \<and> x \<le> td"
  shows "numbers (filter (completed_ok (JNum td)) (map JNum cs)) = cs"
  using assms by (induction cs) auto

text \<open>
  What the loader makes of the item that the save effect wrote for a started ledger with
  as many day records as \<open>totalDays\<close>, at least one.
\<close>

lemma load_saved:
  assumes "sankalpStarted s" and "\<not> isLoading s"
    and "sankalpDays s \<noteq> []"
    and "of_nat (length (sankalpDays s)) = totalDays s"
    and "\<forall>d \<in> set (sankalpDays s).
           \<exists>t. date d = Some t \<and> \<bar>t\<bar> \<le> maxTime \<and> Date_parse h (toISOString h t) = Some t"
  shows "snd (loadFromStorage h clk s0 (save_effect h s store)) \<noteq> None"
    and "fst (loadFromStorage h clk s0 (save_effect h s store))
         = s0\<lparr>sankalpStarted := True,
               completedDays := new_Set (numbers (filter (completed_ok (JNum (totalDays s)))
                                                    (map JNum (completedDays s)))),
               sankalpDays := refreshed h clk 0 (sankalpDays s),
               totalDays := totalDays s\<rparr>"
proof -
  from reconstruct_savedDays [OF assms(5), of clk 0] obtain vs
    where vs: "savedDays h (sankalpDays s) = Inr vs"
      and rs: "reconstructDays h clk 0 vs = Inr (refreshed h clk 0 (sankalpDays s))"
    by blast
  let ?data = "JObj [(''totalDays'', JNum (totalDays s)),
                     (''completedDays'', JArr (map JNum (completedDays s))),
                     (''sankalpDays'', JArr vs),
                     (''startDate'', JStr (startDate_text h (sankalpDays s))),
                     (''sankalpStarted'', JBool (sankalpStarted s)),
                     (''version'', JNum STORAGE_VERSION)]"
  have d: "dataToSave h s = Inr ?data"
    by (simp add: dataToSave_def vs)
  have f: "field_of ?data ''totalDays'' = JNum (totalDays s)"
    "field_of ?data ''completedDays'' = JArr (map JNum (completedDays s))"
    "field_of ?data ''sankalpDays'' = JArr vs"
    "field_of ?data ''startDate'' = JStr (startDate_text h (sankalpDays s))"
    "field_of ?data ''sankalpStarted'' = JBool (sankalpStarted s)"
    "field_of ?data ''version'' = JNum STORAGE_VERSION"
    by (simp_all add: field_of_def)
  have v: "validateSankalpData ?data"
    unfolding validateSankalpData_def Let_def f by simp
  have sv: "save_effect h s store = Some (JSON ?data)"
    using assms(1,2) d v by (simp add: save_effect_def saveToStorage_def)
  from assms(3) obtain d0 rest where ds: "sankalpDays s = d0 # rest"
    by (cases "sankalpDays s") auto
  with assms(5) obtain t0 where t0: "date d0 = Some t0" "\<bar>t0\<bar> \<le> maxTime"
    "Date_parse h (toISOString h t0) = Some t0"
    by auto
  have sd: "new_Date h (field_of ?data ''startDate'') = Inr (Some t0)"
    unfolding f using t0 by (simp add: startDate_text_def ds TimeClip_def)
  have r: "reconstructDays h clk 0 (elements (field_of ?data ''sankalpDays''))
           = Inr (refreshed h clk 0 (sankalpDays s))"
    unfolding f by (simp add: rs)
  have td: "field_of ?data ''totalDays'' = JNum (of_nat (length (refreshed h clk 0 (sankalpDays s))))"
    unfolding f using assms(4) by (simp add: length_refreshed)
  have l: "loadFromStorage h clk s0 (Some (JSON ?data))
         = (s0\<lparr>sankalpStarted := ToBoolean (field_of ?data ''sankalpStarted''),
              completedDays := new_Set (numbers (filter
                  (completed_ok (JNum (of_nat (length (refreshed h clk 0 (sankalpDays s))))))
                  (elements (field_of ?data ''completedDays'')))),
              sankalpDays := refreshed h clk 0 (sankalpDays s),
              totalDays := of_nat (length (refreshed h clk 0 (sankalpDays s)))\<rparr>,
            Some (JSON ?data))"
    by (rule load_accepted [OF v sd r td])
  show "snd (loadFromStorage h clk s0 (save_effect h s store)) \<noteq> None"
    unfolding sv l by simp
  show "fst (loadFromStorage h clk s0 (save_effect h s store))
         = s0\<lparr>sankalpStarted := True,
               completedDays := new_Set (numbers (filter (completed_ok (JNum (totalDays s)))
                                                    (map JNum (completedDays s)))),
               sankalpDays := refreshed h clk 0 (sankalpDays s),
               totalDays := totalDays s\<rparr>"
    unfolding sv l using assms(1)
    by (simp add: field_of_def assms(4) length_refreshed)
qed

text \<open>
  Claim C1, as amended.  Take a started ledger that is not loading and satisfies the
  invariant of the ledger (as many day records as \<open>totalDays\<close>, at least one, every
  completed day within \<open>[1, totalDays]\<close>), every date of which is a time value that
  \<^verbatim>\<open>Date.parse\<close> reads back from its \<^verbatim>\<open>toISOString\<close> text.  Loading what the save effect
  wrote, on any clock and into any state, is accepted and gives a started ledger with the
  same \<open>totalDays\<close>, the same completion set and day records with the same dates, in order:
  the records of the ledger with their flags computed afresh.
\<close>

theorem snapshot_restore_roundtrip:
  assumes "sankalpStarted s" and "\<not> isLoading s"
    and "ledger_invariant s"
    and "\<forall>d \<in> set (sankalpDays s).
           \<exists>t. date d = Some t \<and> \<bar>t\<bar> \<le> maxTime \<and> Date_parse h (toISOString h t) = Some t"
  shows "snd (loadFromStorage h clk s0 (save_effect h s store)) \<noteq> None \<and>
         totalDays (fst (loadFromStorage h clk s0 (save_effect h s store))) = totalDays s \<and>
         set (completedDays (fst (loadFromStorage h clk s0 (save_effect h s store))))
           = set (completedDays s) \<and>
         map date (sankalpDays (fst (loadFromStorage h clk s0 (save_effect h s store))))
           = map date (sankalpDays s) \<and>
         sankalpDays (fst (loadFromStorage h clk s0 (save_effect h s store)))
           = refreshed h clk 0 (sankalpDays s) \<and>
         sankalpStarted (fst (loadFromStorage h clk s0 (save_effect h s store)))"
proof -
  have len: "of_nat (length (sankalpDays s)) = totalDays s" and one: "1 \<le> totalDays s"
    and c: "\<forall>x \<in> set (completedDays s). 1 \<le> x \<and> x \<le> totalDays s"
    using assms(1,3) by (simp_all add: ledger_invariant_def)
  have ne: "sankalpDays s \<noteq> []"
    using len one by auto
  note l = load_saved [OF assms(1,2) ne len assms(4), of clk s0 store]
  have n: "numbers (filter (completed_ok (JNum (totalDays s))) (map JNum (completedDays s)))
           = completedDays s"
    by (rule numbers_filter_in_range [OF c])
  show ?thesis
    using l(1) unfolding l(2) by (simp add: n set_new_Set map_date_refreshed)
qed

theorem snapshot_restore_roundtrip_witness:
  "snd (loadFromStorage example_host example_clock initial_state
          (save_effect example_host example_ledger None)) \<noteq> None \<and>
   totalDays (fst (loadFromStorage example_host example_clock initial_state
          (save_effect example_host example_ledger None))) = 3 \<and>
   set (completedDays (fst (loadFromStorage example_host example_clock initial_state
          (save_effect example_host example_ledger None)))) = {1, 3} \<and>
   map date (sankalpDays (fst (loadFromStorage example_host example_clock initial_state
          (save_effect example_host example_ledger None))))
     = [Some 1793527500000, Some 1793613900000, Some 1793700300000]"
proof -
  have a: "sankalpStarted example_ledger" "\<not> isLoading example_ledger"
    "ledger_invariant example_ledger"
    by (simp_all add: example_ledger_def example_days_def ledger_invariant_def)
  have b: "\<forall>d \<in> set (sankalpDays example_ledger).
           \<exists>t. date d = Some t \<and> \<bar>t\<bar> \<le> maxTime \<and>
               Date_parse example_host (toISOString example_host t) = Some t"
    by (simp add: example_ledger_def example_days_def example_host_def example_parse_def
        example_toISOString_def maxTime_def)
  have e: "totalDays example_ledger = 3" "set (completedDays example_ledger) = {1, 3}"
    "map date (sankalpDays example_ledger)
       = [Some 1793527500000, Some 1793613900000, Some 1793700300000]"
    by (simp_all add: example_ledger_def example_days_def)
  show ?thesis
    using snapshot_restore_roundtrip [OF a b, of example_clock initial_state None]
    unfolding e by blast
qed

text \<open>
  Claim C1 as stated, for every started ledger, fails on started ledgers that the component
  reaches.  The one-day ledger started after the mount has loaded a record that is not
  started holds day 2 as completed; the loader's filter drops it, and the restored
  completion set is empty.  The ledger loaded from a record of no days is started with no
  day records; the save effect writes an empty start date for it, and the loader rejects
  and removes what was written.
\<close>

theorem snapshot_restore_counterexample:
  "sankalpStarted leftover_started \<and> \<not> isLoading leftover_started \<and>
   totalDays leftover_started = 1 \<and> length (sankalpDays leftover_started) = 1 \<and>
   completedDays leftover_started = [2] \<and>
   snd (loadFromStorage example_host example_clock initial_state
          (save_effect example_host leftover_started None)) \<noteq> None \<and>
   completedDays (fst (loadFromStorage example_host example_clock initial_state
          (save_effect example_host leftover_started None))) = [] \<and>
   sankalpStarted zero_day_started \<and> \<not> isLoading zero_day_started \<and>
   save_effect example_host zero_day_started None \<noteq> None \<and>
   loadFromStorage example_host example_clock initial_state
     (save_effect example_host zero_day_started None) = (initial_state, None)"
proof -
  define s1 where
    "s1 = fst (loadFromStorage example_host example_clock initial_state (Some (JSON leftover_record)))"
  have l: "completedDays s1 = [2]" "\<not> sankalpStarted s1"
    using load_leftover by (simp_all add: s1_def)
  have i: "initial_state\<lparr>isLoading := True\<rparr> = initial_state"
    by (simp add: initial_state_def)
  have ia: "fst (initializeApp example_host example_clock initial_state (Some (JSON leftover_record)))
            = s1\<lparr>isLoading := False\<rparr>"
    by (simp add: initializeApp_def i s1_def split: prod.split)
  have v: "validateDaysInput ''1'' = []" "parseInt ''1'' = Some 1"
    by (simp_all add: validateDaysInput_def parseInt_def trim_def Let_def isWhiteSpace_def
        digitValue_def MIN_SANKALP_DAYS_def MAX_SANKALP_DAYS_def)
  have "generateSankalpDays example_host example_clock (of_nat 1)
        = map (\<lambda>j. new_day example_host example_clock (1 + 3 * j)
                      (Some (example_now + int j * msPerDay)) j) [0..<1]"
    by (rule example_generate) simp
  then have g: "generateSankalpDays example_host example_clock 1
                = [new_day example_host example_clock 1 (Some example_now) 0]"
    by simp
  have st: "leftover_started
            = s1\<lparr>isLoading := False, days := ''1'', totalDays := 1,
                 sankalpDays := [new_day example_host example_clock 1 (Some example_now) 0],
                 sankalpStarted := True, validationErrors := []\<rparr>"
    unfolding leftover_started_def ia by (simp add: startSankalp_def Let_def v g)
  have a: "sankalpStarted leftover_started" "\<not> isLoading leftover_started"
    "sankalpDays leftover_started \<noteq> []"
    "of_nat (length (sankalpDays leftover_started)) = totalDays leftover_started"
    by (simp_all add: st)
  have b: "\<forall>d \<in> set (sankalpDays leftover_started).
           \<exists>t. date d = Some t \<and> \<bar>t\<bar> \<le> maxTime \<and>
               Date_parse example_host (toISOString example_host t) = Some t"
    by (simp add: st new_day_def example_now_def example_host_def example_parse_def
        example_toISOString_def maxTime_def)
  note r = load_saved [OF a b, of example_clock initial_state None]
  have c: "totalDays leftover_started = 1 \<and> length (sankalpDays leftover_started) = 1 \<and>
           completedDays leftover_started = [2]"
    by (simp add: st l)
  have d: "completedDays (fst (loadFromStorage example_host example_clock initial_state
             (save_effect example_host leftover_started None))) = []"
    unfolding r(2) by (simp add: st l new_Set_def)
  have z: "zero_day_started
           = initial_state\<lparr>sankalpStarted := True, isLoading := False\<rparr>"
    unfolding zero_day_started_def initializeApp_def i
    by (simp add: loadFromStorage_def corrupt_record_def validateSankalpData_def field_of_def
      STORAGE_VERSION_def example_host_def example_parse_def TimeClip_def maxTime_def
      isValidDate_def initial_state_def new_Set_def)
  let ?data = "JObj [(''totalDays'', JNum 0),
                     (''completedDays'', JArr []),
                     (''sankalpDays'', JArr []),
                     (''startDate'', JStr []),
                     (''sankalpStarted'', JBool True),
                     (''version'', JNum STORAGE_VERSION)]"
  have sv: "save_effect example_host zero_day_started None = Some (JSON ?data)"
    unfolding z
    by (simp add: save_effect_def saveToStorage_def dataToSave_def startDate_text_def
        validateSankalpData_def field_of_def initial_state_def)
  have ld: "loadFromStorage example_host example_clock initial_state (Some (JSON ?data))
            = (initial_state, None)"
    by (simp add: loadFromStorage_def validateSankalpData_def field_of_def
        example_host_def example_parse_def isValidDate_def)
  have e: "sankalpStarted zero_day_started \<and> \<not> isLoading zero_day_started \<and>
           save_effect example_host zero_day_started None \<noteq> None \<and>
           loadFromStorage example_host example_clock initial_state
             (save_effect example_host zero_day_started None) = (initial_state, None)"
    unfolding sv ld by (simp add: z)
  from a(1,2) c r(1) d e show ?thesis by blast
qed

subsection \<open>Rounding to binary64\<close>

lemma powi2_less_iff: "(2::rat) powi a < 2 powi b \<longleftrightarrow> a < b"
proof
  assume l: "(2::rat) powi a < 2 powi b"
  show "a < b"
  proof (rule ccontr)
    assume "\<not> a < b"
    then have "b \<le> a" by simp
    then have "(2::rat) powi b \<le> 2 powi a" by (intro power_int_increasing) simp_all
    with l show False by simp
  qed
next
  assume "a < b"
  then show "(2::rat) powi a < 2 powi b" by (intro power_int_strict_increasing) simp_all
qed

lemma powi2_le_iff: "(2::rat) powi a \<le> 2 powi b \<longleftrightarrow> a \<le> b"
  using powi2_less_iff [of b a] by (simp add: not_less [symmetric])

lemma exponent_bounds:
  assumes "0 < x"
  shows "2 powi exponent x \<le> x \<and> x < 2 powi (exponent x + 1)"
proof -
  obtain p q where pq: "quotient_of x = (p, q)" by (cases "quotient_of x")
  then have q: "0 < q" by (rule quotient_of_denom_pos)
  have x: "x = of_int p / of_int q" using pq by (rule quotient_of_div)
  have p: "0 < p" using assms q x by (simp add: zero_less_divide_iff)
  define lp where "lp = floorlog 2 (nat p)"
  define lq where "lq = floorlog 2 (nat q)"
  define e0 where "e0 = int lp - int lq"
  have bp: "2 ^ (lp - 1) \<le> nat p \<and> nat p < 2 ^ lp"
    unfolding lp_def using floorlog_bounds [of "nat p" 2] p by simp
  have bq: "2 ^ (lq - 1) \<le> nat q \<and> nat q < 2 ^ lq"
    unfolding lq_def using floorlog_bounds [of "nat q" 2] q by simp
  have lp1: "1 \<le> lp" using bp by (cases lp) auto
  have lq1: "1 \<le> lq" using bq by (cases lq) auto
  have P: "(2::rat) ^ (lp - 1) \<le> of_int p" "of_int p < (2::rat) ^ lp"
  proof -
    have "rat_of_nat (2 ^ (lp - 1)) \<le> rat_of_nat (nat p)" using bp by (simp only: of_nat_le_iff)
    then show "(2::rat) ^ (lp - 1) \<le> of_int p" using p by simp
    have "rat_of_nat (nat p) < rat_of_nat (2 ^ lp)" using bp by (simp only: of_nat_less_iff)
    then show "of_int p < (2::rat) ^ lp" using p by simp
  qed
  have Q: "(2::rat) ^ (lq - 1) \<le> of_int q" "of_int q < (2::rat) ^ lq"
  proof -
    have "rat_of_nat (2 ^ (lq - 1)) \<le> rat_of_nat (nat q)" using bq by (simp only: of_nat_le_iff)
    then show "(2::rat) ^ (lq - 1) \<le> of_int q" using q by simp
    have "rat_of_nat (nat q) < rat_of_nat (2 ^ lq)" using bq by (simp only: of_nat_less_iff)
    then show "of_int q < (2::rat) ^ lq" using q by simp
  qed
  have qpos: "(0::rat) < of_int q" using q by simp
  have up: "x < 2 powi (e0 + 1)"
  proof -
    have "e0 + 1 = int lp - int (lq - 1)"
      using lq1 by (simp add: e0_def of_nat_diff)
    then have "2 powi (e0 + 1) = (2::rat) powi (int lp - int (lq - 1))"
      by simp
    also have "\<dots> = 2 ^ lp / 2 ^ (lq - 1)"
      by (simp add: power_int_diff)
    finally have e: "2 powi (e0 + 1) = (2::rat) ^ lp / 2 ^ (lq - 1)" .
    have "x * 2 ^ (lq - 1) \<le> x * of_int q"
      using Q(1) assms by (simp add: mult_left_mono)
    also have "\<dots> = of_int p" using x qpos by simp
    also have "\<dots> < 2 ^ lp" by (rule P(2))
    finally have "x * 2 ^ (lq - 1) < 2 ^ lp" .
    then show ?thesis unfolding e by (simp add: pos_less_divide_eq)
  qed
  have lo: "2 powi (e0 - 1) \<le> x"
  proof -
    have "e0 - 1 = int (lp - 1) - int lq"
      using lp1 by (simp add: e0_def of_nat_diff)
    then have "2 powi (e0 - 1) = (2::rat) powi (int (lp - 1) - int lq)"
      by simp
    also have "\<dots> = 2 ^ (lp - 1) / 2 ^ lq"
      by (simp add: power_int_diff)
    finally have e: "2 powi (e0 - 1) = (2::rat) ^ (lp - 1) / 2 ^ lq" .
    have "(2::rat) ^ (lp - 1) \<le> of_int p" by (rule P(1))
    also have "\<dots> = x * of_int q" using x qpos by simp
    also have "\<dots> \<le> x * 2 ^ lq"
      using Q(2) assms by (simp add: mult_left_mono less_imp_le)
    finally have "(2::rat) ^ (lp - 1) \<le> x * 2 ^ lq" .
    then show ?thesis unfolding e by (simp add: pos_divide_le_eq)
  qed
  have ex: "exponent x = (if 2 powi e0 \<le> x then e0 else e0 - 1)"
    by (simp add: exponent_def pq e0_def lp_def lq_def Let_def)
  show ?thesis
  proof (cases "2 powi e0 \<le> x")
    case True
    then show ?thesis using up ex by simp
  next
    case False
    then show ?thesis using lo ex by simp
  qed
qed

lemma exponent_unique:
  assumes "2 powi e \<le> x" and "x < 2 powi (e + 1)"
  shows "exponent x = e"
proof -
  have "(0::rat) < 2 powi e" by simp
  then have pos: "0 < x" using assms(1) by linarith
  note b = exponent_bounds [OF pos]
  have "(2::rat) powi exponent x < 2 powi (e + 1)" using b assms by linarith
  then have 1: "exponent x < e + 1" by (simp add: powi2_less_iff)
  have "(2::rat) powi e < 2 powi (exponent x + 1)" using b assms by linarith
  then have 2: "e < exponent x + 1" by (simp add: powi2_less_iff)
  from 1 2 show ?thesis by simp
qed

lemma round_ties_even_of_int [simp]: "round_ties_even (of_int k) = k"
  by (simp add: round_ties_even_def)

lemma round_ties_even_bounds:
  "of_int (round_ties_even y) - 1 / 2 \<le> y \<and> y \<le> of_int (round_ties_even y) + 1 / 2"
proof -
  have f: "of_int \<lfloor>y\<rfloor> \<le> y" "y < of_int \<lfloor>y\<rfloor> + 1" by linarith+
  consider "y - of_int \<lfloor>y\<rfloor> < 1 / 2" | "y - of_int \<lfloor>y\<rfloor> > 1 / 2" | "y - of_int \<lfloor>y\<rfloor> = 1 / 2"
    by linarith
  then show ?thesis
  proof cases
    case 1
    then have e: "round_ties_even y = \<lfloor>y\<rfloor>" by (simp add: round_ties_even_def Let_def)
    show ?thesis unfolding e using f 1 by linarith
  next
    case 2
    then have e: "round_ties_even y = \<lfloor>y\<rfloor> + 1" by (simp add: round_ties_even_def Let_def)
    have c: "rat_of_int (\<lfloor>y\<rfloor> + 1) = of_int \<lfloor>y\<rfloor> + 1" by simp
    show ?thesis unfolding e c using f 2 by linarith
  next
    case 3
    show ?thesis
    proof (cases "even \<lfloor>y\<rfloor>")
      case True
      then have e: "round_ties_even y = \<lfloor>y\<rfloor>" using 3 by (simp add: round_ties_even_def Let_def)
      show ?thesis unfolding e using f 3 by linarith
    next
      case False
      then have e: "round_ties_even y = \<lfloor>y\<rfloor> + 1" using 3 by (simp add: round_ties_even_def Let_def)
      have c: "rat_of_int (\<lfloor>y\<rfloor> + 1) = of_int \<lfloor>y\<rfloor> + 1" by simp
      show ?thesis unfolding e c using f 3 by linarith
    qed
  qed
qed

lemma round_ties_even_numeral [simp]: "round_ties_even (numeral k) = numeral k"
  using round_ties_even_of_int [of "numeral k"] by simp

lemma powi_shift: "(2::rat) powi (int k) * 2 powi (e - int k) = 2 powi e"
proof -
  have "(2::rat) powi (int k + (e - int k)) = 2 powi int k * 2 powi (e - int k)"
    by (rule power_int_add) simp
  then show ?thesis by simp
qed

lemma abs_scale: "0 < u \<Longrightarrow> \<bar>a * u - b\<bar> = \<bar>a - b / u\<bar> * (u::rat)"
proof -
  assume u: "0 < u"
  have "\<bar>a - b / u\<bar> * u = \<bar>(a - b / u) * u\<bar>" using u by (simp add: abs_mult)
  also have "(a - b / u) * u = a * u - b" using u by (simp add: field_simps)
  finally show ?thesis by simp
qed


lemma round_ties_even_mono:
  assumes "y \<le> z"
  shows "round_ties_even y \<le> round_ties_even z"
proof -
  have f: "\<lfloor>y\<rfloor> \<le> \<lfloor>z\<rfloor>" using assms by (rule floor_mono)
  have ry: "\<lfloor>y\<rfloor> \<le> round_ties_even y" "round_ties_even y \<le> \<lfloor>y\<rfloor> + 1"
    by (auto simp: round_ties_even_def Let_def)
  have rz: "\<lfloor>z\<rfloor> \<le> round_ties_even z" "round_ties_even z \<le> \<lfloor>z\<rfloor> + 1"
    by (auto simp: round_ties_even_def Let_def)
  show ?thesis
  proof (cases "\<lfloor>y\<rfloor> = \<lfloor>z\<rfloor>")
    case False
    then have "\<lfloor>y\<rfloor> + 1 \<le> \<lfloor>z\<rfloor>" using f by simp
    then show ?thesis using ry rz by linarith
  next
    case True
    then have "y - of_int \<lfloor>y\<rfloor> \<le> z - of_int \<lfloor>z\<rfloor>" using assms by simp
    then show ?thesis
      using True by (auto simp: round_ties_even_def Let_def)
  qed
qed

lemma binary64_pos:
  assumes "0 < x"
  shows "binary64 x = of_int (round_ties_even (x / 2 powi (exponent x - 52))) * 2 powi (exponent x - 52)"
  using assms by (simp add: binary64_def Let_def)

lemma scaled_range:
  assumes "0 < x"
  shows "2 ^ 52 \<le> x / 2 powi (exponent x - 52) \<and> x / 2 powi (exponent x - 52) < 2 ^ 53"
proof -
  note b = exponent_bounds [OF assms]
  have u: "(0::rat) < 2 powi (exponent x - 52)" by simp
  have lo: "(2::rat) ^ 52 * 2 powi (exponent x - 52) = 2 powi exponent x"
    using powi_shift [of 52 "exponent x"] by simp
  have hi: "(2::rat) ^ 53 * 2 powi (exponent x - 52) = 2 powi (exponent x + 1)"
    using powi_shift [of 53 "exponent x + 1"] by simp
  show ?thesis
    using b by (simp only: pos_le_divide_eq [OF u] pos_divide_less_eq [OF u] lo hi)
qed

lemma binary64_range:
  assumes "0 < x"
  shows "2 powi exponent x \<le> binary64 x \<and> binary64 x \<le> 2 powi (exponent x + 1)"
proof -
  let ?u = "(2::rat) powi (exponent x - 52)"
  note s = scaled_range [OF assms]
  have "round_ties_even (of_int (2 ^ 52)) \<le> round_ties_even (x / ?u)"
    using s by (intro round_ties_even_mono) simp
  then have lo: "2 ^ 52 \<le> round_ties_even (x / ?u)" by simp
  have "round_ties_even (x / ?u) \<le> round_ties_even (of_int (2 ^ 53))"
    using s by (intro round_ties_even_mono) simp
  then have hi: "round_ties_even (x / ?u) \<le> 2 ^ 53" by simp
  have u: "(0::rat) < ?u" by simp
  have l2: "(2::rat) ^ 52 * ?u = 2 powi exponent x"
    using powi_shift [of 52 "exponent x"] by simp
  have h2: "(2::rat) ^ 53 * ?u = 2 powi (exponent x + 1)"
    using powi_shift [of 53 "exponent x + 1"] by simp
  have "(2::rat) ^ 52 \<le> of_int (round_ties_even (x / ?u))"
    using lo by (metis of_int_le_iff of_int_numeral of_int_power)
  then have a: "(2::rat) ^ 52 * ?u \<le> of_int (round_ties_even (x / ?u)) * ?u"
    using u by (simp only: mult_le_cancel_right_pos)
  have "of_int (round_ties_even (x / ?u)) \<le> (2::rat) ^ 53"
    using hi by (metis of_int_le_iff of_int_numeral of_int_power)
  then have b: "of_int (round_ties_even (x / ?u)) * ?u \<le> (2::rat) ^ 53 * ?u"
    using u by (simp only: mult_le_cancel_right_pos)
  show ?thesis
    using a b unfolding binary64_pos [OF assms] l2 h2 by simp
qed

lemma binary64_0 [simp]: "binary64 0 = 0"
  by (simp add: binary64_def)

lemma binary64_nonneg: "0 \<le> x \<Longrightarrow> 0 \<le> binary64 x"
proof (cases "x = 0")
  case True
  then show ?thesis by simp
next
  case False
  assume "0 \<le> x"
  with False have p: "0 < x" by simp
  have "(0::rat) < 2 powi exponent x" by simp
  then show ?thesis using binary64_range [OF p] by linarith
qed

lemma binary64_mono:
  assumes "0 \<le> x" and "x \<le> y"
  shows "binary64 x \<le> binary64 y"
proof (cases "x = 0")
  case True
  then show ?thesis using assms binary64_nonneg [of y] by simp
next
  case False
  then have px: "0 < x" using assms by simp
  then have py: "0 < y" using assms by simp
  note bnx = exponent_bounds [OF px] and bny = exponent_bounds [OF py]
  have "(2::rat) powi exponent x < 2 powi (exponent y + 1)" using bnx bny assms by linarith
  then have le: "exponent x \<le> exponent y" by (simp add: powi2_less_iff)
  show ?thesis
  proof (cases "exponent x = exponent y")
    case True
    let ?u = "(2::rat) powi (exponent y - 52)"
    have u: "(0::rat) < ?u" by simp
    have "x / ?u \<le> y / ?u" using assms u by (simp add: divide_right_mono)
    then have "round_ties_even (x / ?u) \<le> round_ties_even (y / ?u)"
      by (rule round_ties_even_mono)
    then have "rat_of_int (round_ties_even (x / ?u)) * ?u \<le> of_int (round_ties_even (y / ?u)) * ?u"
      using u by (simp only: mult_le_cancel_right_pos of_int_le_iff)
    then show ?thesis
      unfolding binary64_pos [OF px] binary64_pos [OF py] True .
  next
    case False
    then have "exponent x + 1 \<le> exponent y" using le by simp
    then have "(2::rat) powi (exponent x + 1) \<le> 2 powi exponent y" by (simp add: powi2_le_iff)
    then show ?thesis using binary64_range [OF px] binary64_range [OF py] by linarith
  qed
qed

lemma binary64_error:
  assumes "0 < x"
  shows "\<bar>binary64 x - x\<bar> \<le> x / 2 ^ 53"
proof -
  let ?u = "(2::rat) powi (exponent x - 52)"
  have u: "(0::rat) < ?u" by simp
  note r = round_ties_even_bounds [of "x / ?u"]
  have xu: "x / ?u * ?u = x" using u by simp
  have "\<bar>of_int (round_ties_even (x / ?u)) - x / ?u\<bar> \<le> 1 / 2" using r by linarith
  then have "\<bar>of_int (round_ties_even (x / ?u)) - x / ?u\<bar> * ?u \<le> 1 / 2 * ?u"
    using u by (simp only: mult_le_cancel_right_pos)
  then have e: "\<bar>binary64 x - x\<bar> \<le> ?u / 2"
    unfolding binary64_pos [OF assms] abs_scale [OF u] by simp
  have "(2::rat) ^ 53 * (?u / 2) = 2 powi exponent x"
    using powi_shift [of 52 "exponent x"] by simp
  then have "?u / 2 = 2 powi exponent x / 2 ^ 53"
    by (simp add: field_simps)
  also have "\<dots> \<le> x / 2 ^ 53"
    using exponent_bounds [OF assms] by (simp add: divide_right_mono)
  finally show ?thesis using e by linarith
qed

lemma binary64_eval:
  assumes "2 powi e \<le> x" and "x < 2 powi (e + 1)"
  shows "binary64 x = of_int (round_ties_even (x / 2 powi (e - 52))) * 2 powi (e - 52)"
proof -
  have "(0::rat) < 2 powi e" by simp
  then have "0 < x" using assms(1) by linarith
  then show ?thesis using exponent_unique [OF assms] by (simp add: binary64_pos)
qed

lemma floor_rat_numeral: "\<lfloor>(numeral a :: rat) / numeral b\<rfloor> = numeral a div numeral b"
  using floor_divide_of_int_eq [of "numeral a" "numeral b", where ?'a = rat] by simp

lemma binary64_1: "binary64 1 = 1"
  by (subst binary64_eval [of 0]) simp_all

lemma binary64_100: "binary64 100 = 100"
  by (subst binary64_eval [of 6]) simp_all

lemma binary64_23_40: "binary64 (23 / 40) = 5179139571476070 / 9007199254740992"
  by (subst binary64_eval [of "- 1"]) (simp_all add: round_ties_even_def Let_def floor_rat_numeral)

lemma binary64_23_40_100:
  "binary64 (64739244643450875 / 1125899906842624) = 8092405580431359 / 140737488355328"
  by (subst binary64_eval [of 5]) (simp_all add: round_ties_even_def Let_def floor_rat_numeral)

lemma Math_round_example: "Math_round (8092405580431359 / 140737488355328) = 57"
  by (simp add: Math_round_def floor_rat_numeral)

subsection \<open>The completion percentage\<close>

lemma completionPercentage_eq:
  "completionPercentage s
   = (if totalDays s > 0 then percentage_of (length (completedDays s)) (totalDays s) else 0)"
  by (simp add: completionPercentage_def percentage_of_def)

lemma percentage_of_0: "percentage_of 0 t = 0"
  by (simp add: percentage_of_def Math_round_def floor_eq_iff)

lemma percentage_of_full: "0 < n \<Longrightarrow> percentage_of n (of_nat n) = 100"
  by (simp add: percentage_of_def binary64_1 binary64_100 Math_round_def floor_rat_numeral)

lemma percentage_of_mono:
  assumes "0 < t" and "c \<le> c'"
  shows "percentage_of c t \<le> percentage_of c' t"
proof -
  have q: "rat_of_nat c / t \<le> of_nat c' / t"
    using assms by (simp add: divide_right_mono)
  have q0: "0 \<le> rat_of_nat c / t" using assms by simp
  have "binary64 (of_nat c / t) \<le> binary64 (of_nat c' / t)"
    using q0 q by (rule binary64_mono)
  then have m: "binary64 (of_nat c / t) * 100 \<le> binary64 (of_nat c' / t) * 100"
    by simp
  have "0 \<le> binary64 (of_nat c / t) * 100"
    using binary64_nonneg [OF q0] by simp
  then have "binary64 (binary64 (of_nat c / t) * 100) \<le> binary64 (binary64 (of_nat c' / t) * 100)"
    using m by (rule binary64_mono)
  then have "Math_round (binary64 (binary64 (of_nat c / t) * 100))
             \<le> Math_round (binary64 (binary64 (of_nat c' / t) * 100))"
    unfolding Math_round_def by (intro floor_mono) simp
  then show ?thesis by (simp add: percentage_of_def)
qed

lemma grid_gap:
  fixes A B N :: int
  assumes "0 < N" and "rat_of_int A / of_int N < of_int B / 2"
  shows "rat_of_int A / of_int N + 1 / (2 * of_int N) \<le> of_int B / 2"
proof -
  have n: "(0::rat) < of_int N" using assms(1) by simp
  from assms(2) have "rat_of_int A * 2 < of_int B * of_int N"
    using n by (simp add: field_simps)
  then have "rat_of_int (A * 2) < rat_of_int (B * N)" by simp
  then have "A * 2 < B * N" by (simp only: of_int_less_iff)
  then have "A * 2 + 1 \<le> B * N" by simp
  then have "rat_of_int (A * 2 + 1) \<le> rat_of_int (B * N)" by (simp only: of_int_le_iff)
  then have "rat_of_int A * 2 + 1 \<le> of_int B * of_int N" by simp
  then show ?thesis using n by (simp add: field_simps)
qed

lemma grid_gap':
  fixes A B N :: int
  assumes "0 < N" and "of_int B / 2 < rat_of_int A / of_int N"
  shows "of_int B / 2 + 1 / (2 * of_int N) \<le> rat_of_int A / of_int N"
proof -
  have "rat_of_int (- A) / of_int N < of_int (- B) / 2" using assms(2) by simp
  from grid_gap [OF assms(1) this] show ?thesis by simp
qed

lemma percentage_error:
  assumes "0 < n" and "c < 2 ^ 32"
  shows "\<bar>binary64 (binary64 (rat_of_nat c / of_nat n) * 100) - 100 * of_nat c / of_nat n\<bar>
         < 1 / (2 * of_nat n)"
proof (cases "c = 0")
  case True
  then show ?thesis using assms by simp
next
  case False
  define X where "X = rat_of_nat c / of_nat n"
  define q where "q = binary64 X"
  have X: "0 < X" using False assms by (simp add: X_def)
  have eq: "\<bar>q - X\<bar> \<le> X / 2 ^ 53" unfolding q_def by (rule binary64_error [OF X])
  have qpos: "0 < q"
  proof -
    have "(0::rat) < 2 powi exponent X" by simp
    then show ?thesis using binary64_range [OF X] unfolding q_def by linarith
  qed
  have q2: "q \<le> 2 * X"
  proof -
    have "X / 2 ^ 53 \<le> X" using X by (simp add: field_simps)
    then show ?thesis using eq by linarith
  qed
  have q100: "0 < q * 100" using qpos by simp
  have e2: "\<bar>binary64 (q * 100) - q * 100\<bar> \<le> q * 100 / 2 ^ 53"
    by (rule binary64_error [OF q100])
  have "binary64 (q * 100) - 100 * X = (binary64 (q * 100) - q * 100) + 100 * (q - X)"
    by (simp add: algebra_simps)
  then have t: "\<bar>binary64 (q * 100) - 100 * X\<bar>
                \<le> \<bar>binary64 (q * 100) - q * 100\<bar> + \<bar>100 * (q - X)\<bar>"
    using abs_triangle_ineq [of "binary64 (q * 100) - q * 100" "100 * (q - X)"] by simp
  have m: "\<bar>100 * (q - X)\<bar> = 100 * \<bar>q - X\<bar>"
    by (simp only: abs_mult abs_numeral)
  have "\<bar>binary64 (q * 100) - 100 * X\<bar> \<le> q * 100 / 2 ^ 53 + 100 * (X / 2 ^ 53)"
    using t e2 eq unfolding m by linarith
  also have "\<dots> \<le> 2 * X * 100 / 2 ^ 53 + 100 * (X / 2 ^ 53)"
    using q2 by (simp add: field_simps)
  also have "\<dots> = 300 * X / 2 ^ 53" by simp
  finally have b: "\<bar>binary64 (q * 100) - 100 * X\<bar> \<le> 300 * X / 2 ^ 53" .
  have "rat_of_nat c < 2 ^ 32"
    using assms(2) by (metis of_nat_less_iff of_nat_numeral of_nat_power)
  then have a: "300 * rat_of_nat c / 2 ^ 53 < 1 / 2" by simp
  have np: "(0::rat) < of_nat n" using assms(1) by simp
  have "300 * rat_of_nat c / 2 ^ 53 / of_nat n < 1 / 2 / of_nat n"
    by (rule divide_strict_right_mono [OF a np])
  moreover have "300 * rat_of_nat c / 2 ^ 53 / of_nat n = 300 * X / 2 ^ 53"
    by (simp add: X_def)
  moreover have "1 / 2 / rat_of_nat n = 1 / (2 * of_nat n)"
    by simp
  ultimately have "300 * X / 2 ^ 53 < 1 / (2 * of_nat n)"
    by simp
  with b have "\<bar>binary64 (q * 100) - 100 * X\<bar> < 1 / (2 * of_nat n)" by linarith
  then show ?thesis by (simp add: q_def X_def)
qed

lemma percentage_nearest:
  assumes "0 < n" and "c < 2 ^ 32"
  shows "\<bar>percentage_of c (of_nat n) - 100 * of_nat c / of_nat n\<bar> \<le> 1 / 2"
proof -
  define x where "x = binary64 (binary64 (rat_of_nat c / of_nat n) * 100)"
  define k where "k = Math_round x"
  define X where "X = 100 * rat_of_nat c / of_nat n"
  have err: "\<bar>x - X\<bar> < 1 / (2 * of_nat n)"
    unfolding x_def X_def by (rule percentage_error [OF assms])
  have k: "of_int k \<le> x + 1 / 2" "x + 1 / 2 < of_int k + 1"
    unfolding k_def Math_round_def by linarith+
  have XA: "X = rat_of_int (100 * int c) / of_int (int n)"
    by (simp add: X_def)
  have n: "0 < int n" using assms(1) by simp
  have lo: "of_int k - 1 / 2 \<le> X"
  proof (rule ccontr)
    assume "\<not> of_int k - 1 / 2 \<le> X"
    then have "X < rat_of_int (2 * k - 1) / 2" by (simp add: field_simps)
    then have "X + 1 / (2 * of_int (int n)) \<le> rat_of_int (2 * k - 1) / 2"
      unfolding XA by (rule grid_gap [OF n])
    then have "X + 1 / (2 * of_nat n) \<le> of_int k - 1 / 2" by (simp add: field_simps)
    with k err show False by linarith
  qed
  have hi: "X \<le> of_int k + 1 / 2"
  proof (rule ccontr)
    assume "\<not> X \<le> of_int k + 1 / 2"
    then have "rat_of_int (2 * k + 1) / 2 < X" by (simp add: field_simps)
    then have "rat_of_int (2 * k + 1) / 2 + 1 / (2 * of_int (int n)) \<le> X"
      unfolding XA by (rule grid_gap' [OF n])
    then have "of_int k + 1 / 2 + 1 / (2 * of_nat n) \<le> X" by (simp add: field_simps)
    with k err show False by linarith
  qed
  have "percentage_of c (of_nat n) = of_int k"
    by (simp add: percentage_of_def k_def x_def)
  then show ?thesis using lo hi unfolding X_def by linarith
qed

text \<open>
  Claim C8, as amended.  The percentage is 0 when \<open>totalDays\<close> is not positive, 0 when the
  completion set is empty, 100 when the set has \<open>totalDays\<close> members, and it does not decrease
  when the set grows.  For a day count \<open>n\<close> it is an integer nearest to the exact value
  \<open>100 * size / n\<close>: it differs from it by at most one half.  Where the exact value lies
  half-way between two integers, the binary64 rounding of the quotient decides which of the
  two it is.
\<close>

theorem completionPercentage_properties:
  "(\<not> totalDays s > 0 \<longrightarrow> completionPercentage s = 0) \<and>
   (completedDays s = [] \<longrightarrow> completionPercentage s = 0) \<and>
   (completedDays s \<noteq> [] \<and> totalDays s = of_nat (length (completedDays s)) \<longrightarrow>
      completionPercentage s = 100) \<and>
   (totalDays s' = totalDays s \<and> distinct (completedDays s) \<and>
    set (completedDays s) \<subseteq> set (completedDays s') \<longrightarrow>
      completionPercentage s \<le> completionPercentage s') \<and>
   (\<forall>n. 0 < n \<and> totalDays s = of_nat n \<and> length (completedDays s) < 2 ^ 32 \<longrightarrow>
      \<bar>completionPercentage s - 100 * of_nat (length (completedDays s)) / of_nat n\<bar> \<le> 1 / 2)"
proof (intro conjI allI impI)
  assume "\<not> totalDays s > 0"
  then show "completionPercentage s = 0" by (simp add: completionPercentage_eq)
next
  assume "completedDays s = []"
  then show "completionPercentage s = 0" by (simp add: completionPercentage_eq percentage_of_0)
next
  assume a: "completedDays s \<noteq> [] \<and> totalDays s = of_nat (length (completedDays s))"
  then have "0 < length (completedDays s)" by simp
  then show "completionPercentage s = 100"
    using a percentage_of_full [of "length (completedDays s)"]
    by (simp add: completionPercentage_eq)
next
  assume a: "totalDays s' = totalDays s \<and> distinct (completedDays s) \<and>
             set (completedDays s) \<subseteq> set (completedDays s')"
  then have "card (set (completedDays s)) \<le> card (set (completedDays s'))"
    by (intro card_mono) simp_all
  moreover have "card (set (completedDays s)) = length (completedDays s)"
    using a by (simp add: distinct_card)
  moreover have "card (set (completedDays s')) \<le> length (completedDays s')"
    by (rule card_length)
  ultimately have le: "length (completedDays s) \<le> length (completedDays s')" by linarith
  show "completionPercentage s \<le> completionPercentage s'"
  proof (cases "totalDays s > 0")
    case True
    then show ?thesis
      using a percentage_of_mono [OF True le] by (simp add: completionPercentage_eq)
  next
    case False
    then show ?thesis using a by (simp add: completionPercentage_eq)
  qed
next
  fix n :: nat
  assume a: "0 < n \<and> totalDays s = of_nat n \<and> length (completedDays s) < 2 ^ 32"
  then have "completionPercentage s = percentage_of (length (completedDays s)) (of_nat n)"
    by (simp add: completionPercentage_eq)
  then show "\<bar>completionPercentage s - 100 * of_nat (length (completedDays s)) / of_nat n\<bar> \<le> 1 / 2"
    using a percentage_nearest [of n "length (completedDays s)"] by simp
qed

theorem completionPercentage_properties_witness:
  "completionPercentage (example_ledger\<lparr>totalDays := 0\<rparr>) = 0 \<and>
   completionPercentage (example_ledger\<lparr>completedDays := []\<rparr>) = 0 \<and>
   completionPercentage (example_ledger\<lparr>completedDays := [1, 2, 3]\<rparr>) = 100 \<and>
   completionPercentage (example_ledger\<lparr>completedDays := [1]\<rparr>) \<le> completionPercentage example_ledger \<and>
   \<bar>completionPercentage example_ledger - 200 / 3\<bar> \<le> 1 / 2"
proof -
  have a: "completionPercentage (example_ledger\<lparr>totalDays := 0\<rparr>) = 0"
    using completionPercentage_properties [of "example_ledger\<lparr>totalDays := 0\<rparr>"] by simp
  have b: "completionPercentage (example_ledger\<lparr>completedDays := []\<rparr>) = 0"
    using completionPercentage_properties [of "example_ledger\<lparr>completedDays := []\<rparr>"] by simp
  have c: "completionPercentage (example_ledger\<lparr>completedDays := [1, 2, 3]\<rparr>) = 100"
    using completionPercentage_properties [of "example_ledger\<lparr>completedDays := [1, 2, 3]\<rparr>"]
    by (simp add: example_ledger_def)
  have d: "completionPercentage (example_ledger\<lparr>completedDays := [1]\<rparr>)
           \<le> completionPercentage example_ledger"
    using completionPercentage_properties
      [of "example_ledger\<lparr>completedDays := [1]\<rparr>" example_ledger]
    by (simp add: example_ledger_def)
  have "(0::nat) < 3 \<and> totalDays example_ledger = of_nat 3 \<and> length (completedDays example_ledger) < 2 ^ 32"
    by (simp add: example_ledger_def)
  then have "\<bar>completionPercentage example_ledger
              - 100 * of_nat (length (completedDays example_ledger)) / of_nat 3\<bar> \<le> 1 / 2"
    using completionPercentage_properties [of example_ledger] by blast
  then have e: "\<bar>completionPercentage example_ledger - 200 / 3\<bar> \<le> 1 / 2"
    by (simp add: example_ledger_def)
  from a b c d e show ?thesis by blast
qed

text \<open>
  Claim C8 as stated fails for 23 completed days of 40: the exact value is 57.5, which
  rounds to 58 half-up as well as half-to-even, and the component shows 57, since the
  double nearest to 23/40 lies below it and its hundredfold rounds to a double below 57.5.
\<close>

theorem completionPercentage_counterexample:
  "rat_of_nat (length (completedDays ledger_on_day_23)) = 23 \<and>
   totalDays ledger_on_day_23 = 40 \<and>
   completionPercentage ledger_on_day_23 = 57 \<and>
   round (100 * rat_of_nat (length (completedDays ledger_on_day_23)) / totalDays ledger_on_day_23) = 58 \<and>
   round_ties_even (100 * rat_of_nat (length (completedDays ledger_on_day_23)) / totalDays ledger_on_day_23) = 58"
proof -
  have l: "length (completedDays ledger_on_day_23) = 23" and t: "totalDays ledger_on_day_23 = 40"
    by (simp_all add: ledger_on_day_23_def)
  have p: "completionPercentage ledger_on_day_23 = 57"
    by (simp add: completionPercentage_def l t binary64_23_40 binary64_23_40_100 Math_round_example)
  have r: "round (100 * rat_of_nat 23 / 40) = 58"
    by (simp add: round_def floor_rat_numeral)
  have e: "round_ties_even (100 * rat_of_nat 23 / 40) = 58"
    by (simp add: round_ties_even_def Let_def floor_rat_numeral)
  show ?thesis using p r e by (simp add: l t)
qed

end
